theory Spec2Isabelle
  imports Complex_Main
begin

section \<open>Data model\<close>

text \<open>
  JavaScript numbers are modelled as real numbers: rounding, infinities and \<open>NaN\<close> are
  left out, except in the route controller, where the program itself turns an object
  into \<open>NaN\<close> and the values are modelled with a type of their own further down.
  Instants are milliseconds since the epoch, as \<open>Date.now()\<close> returns them. An
  \<open>async\<close> function is modelled by what it does from call to return; the steps of
  the service are taken one at a time in the last section of the definitions.
\<close>

datatype error = Error string

text \<open>A stored \<open>SafetyReport\<close> document, as the services read it:
  \<open>location.coordinates = [lng, lat]\<close>, \<open>type\<close>, \<open>severity\<close>, \<open>timestamp\<close>.\<close>

record report =
  r_lat :: real
  r_lng :: real
  r_type :: string
  r_severity :: real
  r_timestamp :: int
  r_description :: string

text \<open>The object \<open>{ score, confidence }\<close> that \<open>predictSafety\<close> resolves to, and the
  cache entry \<open>{ score, confidence, timestamp }\<close>.\<close>

record prediction =
  score :: real
  confidence :: real

record cache_entry = prediction +
  timestamp :: int

text \<open>
  \<open>x.toFixed(d)\<close>: the sign is taken off first (\<open>x < 0\<close> prints a leading minus, also
  when the digits are all zero), then the integer \<open>n\<close> with \<open>n / 10^d\<close> closest to \<open>|x|\<close>
  is printed, the larger one on a tie. The printed text is determined by the pair.
\<close>

type_synonym fixed = "bool \<times> nat"

definition toFixed :: "nat \<Rightarrow> real \<Rightarrow> fixed" where
  "toFixed d x = (x < 0, nat \<lfloor>\<bar>x\<bar> * 10 ^ d + 1 / 2\<rfloor>)"

type_synonym key = "fixed \<times> fixed"

text \<open>The template string \<open>`${lat.toFixed(5)},${lng.toFixed(5)}`\<close>.\<close>

definition cacheKey :: "real \<Rightarrow> real \<Rightarrow> key" where
  "cacheKey lat lng = (toFixed 5 lat, toFixed 5 lng)"

text \<open>A loaded TensorFlow model is its inference behaviour: the 8 features go in, a
  number comes out or \<open>predict\<close> throws.\<close>

type_synonym tfmodel = "real list \<Rightarrow> error + real"

record point =
  pt_lat :: real
  pt_lng :: real

record hotspot =
  location :: point
  hsSafetyScore :: real
  hsConfidence :: real
  category :: string
  reportCount :: nat

text \<open>The fields of \<open>SafetyMLService\<close>.\<close>

record service =
  model :: "tfmodel option"
  isTraining :: bool
  lastTrainedAt :: "int option"
  trainingQueue :: "int list"
  predictionCache :: "key \<rightharpoonup> cache_entry"
  modelLoss :: "real option"
  predictedHotspots :: "hotspot list"
  lastSampleSize :: nat

definition cacheTTL :: int where
  "cacheTTL = 5 * 60 * 1000"

text \<open>The state the constructor leaves, before \<open>initModel\<close> has loaded or created a model.\<close>

definition new_service :: service where
  "new_service = \<lparr> model = None, isTraining = False, lastTrainedAt = None,
     trainingQueue = [], predictionCache = Map.empty, modelLoss = None,
     predictedHotspots = [], lastSampleSize = 0 \<rparr>"

section \<open>Geospatial helpers\<close>

text \<open>\<open>Math.atan2(y, x)\<close>.\<close>

definition atan2 :: "real \<Rightarrow> real \<Rightarrow> real" where
  "atan2 y x =
     (if 0 < x then arctan (y / x)
      else if x < 0 \<and> 0 \<le> y then arctan (y / x) + pi
      else if x < 0 then arctan (y / x) - pi
      else if 0 < y then pi / 2
      else if y < 0 then - (pi / 2)
      else 0)"

definition calculateDistance :: "real \<Rightarrow> real \<Rightarrow> real \<Rightarrow> real \<Rightarrow> real" where
  "calculateDistance lat1 lon1 lat2 lon2 =
     (let R = 6371;
          dLat = (lat2 - lat1) * (pi / 180);
          dLon = (lon2 - lon1) * (pi / 180);
          a = sin (dLat / 2) * sin (dLat / 2)
              + cos (lat1 * (pi / 180)) * cos (lat2 * (pi / 180))
                * sin (dLon / 2) * sin (dLon / 2);
          c = 2 * atan2 (sqrt a) (sqrt (1 - a))
      in R * c)"

section \<open>The model service\<close>

subsection \<open>Prediction\<close>

text \<open>
  What one call of \<open>predictSafety\<close> reads from outside the service: the clock at the
  freshness test (\<open>now_check\<close>), the \<open>new Date()\<close> of the feature computation with its
  local hour and weekday, the clock and the \<open>Math.random()\<close> draw inside
  \<open>getHeuristicSafety\<close>, the clock when the cache entry is written, and the report
  store's \<open>findNearby\<close>, which may throw.
\<close>

record penv =
  now_check :: int
  now_feat :: int
  feat_hour :: nat
  feat_day :: nat
  heur_hour :: nat
  rand :: real
  now_write :: int
  findNearby :: "real \<Rightarrow> real \<Rightarrow> real \<Rightarrow> error + report list"

definition getHeuristicSafety :: "penv \<Rightarrow> real \<Rightarrow> real \<Rightarrow> real" where
  "getHeuristicSafety e lat lng =
     (let hour = heur_hour e;
          baseScore = (if hour \<ge> 22 \<or> hour \<le> 5 then 0.5
                       else if hour \<ge> 18 \<and> hour < 22 then 0.6
                       else if hour > 5 \<and> hour < 8 then 0.65
                       else 0.7);
          latFactor = sin (lat * 10) * 0.1;
          lngFactor = cos (lng * 10) * 0.1;
          locationFactor = latFactor + lngFactor;
          randomFactor = rand e * 0.1 - 0.05
      in max 0.1 (min 0.9 (baseScore + locationFactor + randomFactor)))"

definition unsafe_types :: "string list" where
  "unsafe_types = [''unsafe'', ''incident'', ''suspicious'']"

definition days_between :: "int \<Rightarrow> int \<Rightarrow> real" where
  "days_between now t = real_of_int (now - t) / (1000 * 60 * 60 * 24)"

text \<open>
  The \<open>else\<close> branch of the \<open>try\<close> block, for a non-empty list of nearby reports,
  in four parts: the average age of the reports in days, the tensor handed to the model,
  the adjustments made to the model's output, and the confidence.
\<close>

definition avgDaysSince :: "penv \<Rightarrow> report list \<Rightarrow> real" where
  "avgDaysSince e nearbyReports =
     (\<Sum>r\<leftarrow>nearbyReports. days_between (now_feat e) (r_timestamp r))
       / real (length nearbyReports)"

definition featureVector :: "penv \<Rightarrow> real \<Rightarrow> real \<Rightarrow> report list \<Rightarrow> real list" where
  "featureVector e lat lng nearbyReports =
     (let n = real (length nearbyReports);
          avgSeverity = (\<Sum>r\<leftarrow>nearbyReports. r_severity r) / n;
          unsafeCount = length (filter (\<lambda>r. r_type r \<in> set unsafe_types) nearbyReports);
          unsafeRatio = real unsafeCount / n
      in [lat / 90, lng / 180, real (feat_hour e) / 24, real (feat_day e) / 7,
          min 1 (n / 10), avgSeverity / 5, min 1 (avgDaysSince e nearbyReports / 30),
          unsafeRatio])"

definition adjustedScore :: "penv \<Rightarrow> report list \<Rightarrow> real \<Rightarrow> real" where
  "adjustedScore e nearbyReports p =
     (let s1 = (if feat_hour e \<ge> 22 \<or> feat_hour e \<le> 5 then max 0.1 (p - 0.1) else p);
          recentReports =
            filter (\<lambda>r. now_feat e - r_timestamp r < 24 * 60 * 60 * 1000) nearbyReports;
          recentUnsafeCount =
            length (filter (\<lambda>r. r_type r \<in> set [''unsafe'', ''incident'']) recentReports);
          s2 = (if length recentReports > 0 \<and> recentUnsafeCount > 0
                then max 0.1 (s1 - 0.05 * real recentUnsafeCount) else s1)
      in max 0.1 (min 0.9 s2))"

definition confidenceFrom :: "penv \<Rightarrow> report list \<Rightarrow> real" where
  "confidenceFrom e nearbyReports =
     (let reportCountFactor = min 1 (real (length nearbyReports) / 10);
          recencyFactor = max 0.5 (1 - avgDaysSince e nearbyReports / 30)
      in reportCountFactor * 0.7 + recencyFactor * 0.3)"

text \<open>Inference and what follows it; \<open>Inl\<close> is a throw of \<open>model.predict\<close>.\<close>

definition inferSafety :: "penv \<Rightarrow> tfmodel \<Rightarrow> real \<Rightarrow> real \<Rightarrow> report list \<Rightarrow> error + prediction" where
  "inferSafety e m lat lng nearbyReports =
     (case m (featureVector e lat lng nearbyReports) of
        Inl err \<Rightarrow> Inl err
      | Inr p \<Rightarrow> Inr \<lparr> score = adjustedScore e nearbyReports p,
                        confidence = confidenceFrom e nearbyReports \<rparr>)"

text \<open>The whole \<open>try\<close> block up to the cache write.\<close>

definition tryPredict :: "penv \<Rightarrow> tfmodel \<Rightarrow> real \<Rightarrow> real \<Rightarrow> error + prediction" where
  "tryPredict e m lat lng =
     (case findNearby e lat lng 0.5 of
        Inl err \<Rightarrow> Inl err
      | Inr nearbyReports \<Rightarrow>
          if length nearbyReports = 0
          then Inr \<lparr> score = getHeuristicSafety e lat lng, confidence = 0.5 \<rparr>
          else inferSafety e m lat lng nearbyReports)"

definition cacheSet :: "penv \<Rightarrow> key \<Rightarrow> prediction \<Rightarrow> service \<Rightarrow> service" where
  "cacheSet e k p s =
     s\<lparr> predictionCache := (predictionCache s)
          (k \<mapsto> \<lparr> score = score p, confidence = confidence p, timestamp = now_write e \<rparr>) \<rparr>"

text \<open>The entry the freshness test lets through, if any.\<close>

definition cachedFresh :: "penv \<Rightarrow> key \<Rightarrow> service \<Rightarrow> cache_entry option" where
  "cachedFresh e k s =
     (case predictionCache s k of
        None \<Rightarrow> None
      | Some c \<Rightarrow> if timestamp c > now_check e - cacheTTL then Some c else None)"

definition predictSafety :: "penv \<Rightarrow> real \<Rightarrow> real \<Rightarrow> service \<Rightarrow> prediction \<times> service" where
  "predictSafety e lat lng s =
     (case model s of
        None \<Rightarrow>
          (let p = \<lparr> score = getHeuristicSafety e lat lng, confidence = 0.5 \<rparr>
           in (p, cacheSet e (cacheKey lat lng) p s))
      | Some m \<Rightarrow>
          (case cachedFresh e (cacheKey lat lng) s of
             Some c \<Rightarrow> (\<lparr> score = score c, confidence = confidence c \<rparr>, s)
           | None \<Rightarrow>
               (case tryPredict e m lat lng of
                  Inr p \<Rightarrow> (p, cacheSet e (cacheKey lat lng) p s)
                | Inl err \<Rightarrow>
                    (let p = \<lparr> score = getHeuristicSafety e lat lng, confidence = 0.5 \<rparr>
                     in (p, cacheSet e (cacheKey lat lng) p s)))))"

text \<open>
  \<open>predictSafety\<close> is an \<open>async\<close> function with one \<open>await\<close>, on \<open>findNearby\<close>.
  Up to there it runs at once: \<open>predictSafety_lookup\<close> is that part, and gives the
  result when the call returns without waiting (no model, or a fresh entry). After the
  \<open>await\<close> the call goes on in the service as it is by then, which other calls may
  have changed: \<open>predictSafety_complete\<close> is that part. It reads \<open>this.model\<close> again;
  were it \<open>null\<close>, the \<open>try\<close> block would give the heuristic result on each of its
  paths. \<open>predictSafety\<close> above is the two parts run with nothing in between.
\<close>

definition predictSafety_lookup :: "penv \<Rightarrow> real \<Rightarrow> real \<Rightarrow> service
    \<Rightarrow> (prediction \<times> service) option" where
  "predictSafety_lookup e lat lng s =
     (case model s of
        None \<Rightarrow>
          (let p = \<lparr> score = getHeuristicSafety e lat lng, confidence = 0.5 \<rparr>
           in Some (p, cacheSet e (cacheKey lat lng) p s))
      | Some m \<Rightarrow>
          (case cachedFresh e (cacheKey lat lng) s of
             Some c \<Rightarrow> Some (\<lparr> score = score c, confidence = confidence c \<rparr>, s)
           | None \<Rightarrow> None))"

definition predictSafety_complete :: "penv \<Rightarrow> real \<Rightarrow> real \<Rightarrow> service
    \<Rightarrow> prediction \<times> service" where
  "predictSafety_complete e lat lng s =
     (let heuristic = \<lparr> score = getHeuristicSafety e lat lng, confidence = 0.5 \<rparr>;
          p = (case model s of
                 None \<Rightarrow> heuristic
               | Some m \<Rightarrow>
                   (case tryPredict e m lat lng of
                      Inr p \<Rightarrow> p
                    | Inl err \<Rightarrow> heuristic))
      in (p, cacheSet e (cacheKey lat lng) p s))"

subsection \<open>Cache maintenance\<close>

definition cleanupCache :: "int \<Rightarrow> service \<Rightarrow> service" where
  "cleanupCache now s =
     s\<lparr> predictionCache :=
          (\<lambda>k. case predictionCache s k of
                 None \<Rightarrow> None
               | Some v \<Rightarrow> if timestamp v < now - cacheTTL then None else Some v) \<rparr>"

subsection \<open>Training\<close>

record sample =
  features :: "real list"
  label :: real

text \<open>
  What \<open>trainModel\<close> reads from outside: the result of
  \<open>SafetyReport.find().sort({ timestamp: -1 }).limit(n)\<close>, the clock, the local hour and
  weekday of an instant, the \<open>Math.random()\<close> draws of \<open>shuffleArray\<close> in call order, and
  \<open>model.fit\<close>, which returns the fitted model with the loss history or throws.
\<close>

record tenv =
  findRecent :: "nat \<Rightarrow> error + report list"
  now_train :: int
  getHours :: "int \<Rightarrow> nat"
  getDay :: "int \<Rightarrow> nat"
  shuffle_rand :: "nat \<Rightarrow> real"
  fit :: "tfmodel \<Rightarrow> sample list \<Rightarrow> error + (tfmodel \<times> real list)"
  now_trained :: int

text \<open>The loop of \<open>shuffleArray\<close>, from \<open>i = length - 1\<close> down to \<open>1\<close>; \<open>k\<close> counts the
  draws. \<open>Math.random()\<close> lies in \<open>[0, 1)\<close>, which keeps \<open>j\<close> within \<open>0..i\<close>.\<close>

fun shuffleLoop :: "(nat \<Rightarrow> real) \<Rightarrow> nat \<Rightarrow> nat \<Rightarrow> 'a list \<Rightarrow> 'a list" where
  "shuffleLoop rnd k 0 xs = xs"
| "shuffleLoop rnd k (Suc i') xs =
     (let i = Suc i';
          j = nat \<lfloor>rnd k * real (i + 1)\<rfloor>
      in shuffleLoop rnd (k + 1) i' (xs[i := xs ! j, j := xs ! i]))"

definition shuffleArray :: "(nat \<Rightarrow> real) \<Rightarrow> 'a list \<Rightarrow> 'a list" where
  "shuffleArray rnd xs = shuffleLoop rnd 0 (length xs - 1) xs"

text \<open>The callback of \<open>reports.map\<close> in \<open>trainModel\<close>.\<close>

definition trainingSample :: "tenv \<Rightarrow> report list \<Rightarrow> report \<Rightarrow> sample" where
  "trainingSample te reports r =
     (let reportTime = r_timestamp r;
          hourOfDay = getHours te reportTime;
          dayOfWeek = getDay te reportTime;
          daysSinceReport = days_between (now_train te) reportTime;
          nearbyReports =
            filter (\<lambda>nr. calculateDistance (r_lat r) (r_lng r) (r_lat nr) (r_lng nr) \<le> 0.5) reports;
          incidentCount = min 10 (real (length nearbyReports));
          avgSeverity = (\<Sum>nr\<leftarrow>nearbyReports. r_severity nr) / max 1 (real (length nearbyReports));
          unsafeCount = length (filter (\<lambda>nr. r_type nr \<in> set unsafe_types) nearbyReports);
          unsafeRatio = real unsafeCount / max 1 (real (length nearbyReports));
          safetyScore0 =
            (if r_type r \<in> set [''unsafe'', ''incident'']
               then max 0.1 (0.5 - r_severity r / 10 - unsafeRatio / 5)
             else if r_type r = ''safe''
               then min 0.9 (0.5 + r_severity r / 10 - unsafeRatio / 5)
             else if r_type r = ''suspicious''
               then max 0.2 (0.5 - r_severity r / 20 - unsafeRatio / 10)
             else 0.5);
          recencyFactor = max 0.5 (1 - daysSinceReport / 30);
          safetyScore1 = safetyScore0 * recencyFactor;
          safetyScore = (if hourOfDay \<ge> 22 \<or> hourOfDay \<le> 5
                         then max 0.1 (safetyScore1 - 0.1) else safetyScore1)
      in \<lparr> features = [r_lat r / 90, r_lng r / 180, real hourOfDay / 24, real dayOfWeek / 7,
                       incidentCount / 10, avgSeverity / 5, min 1 (daysSinceReport / 30),
                       unsafeRatio],
           label = safetyScore \<rparr>)"

text \<open>
  \<open>trainModel\<close>. Every throw inside is caught and logged by the function itself, so it
  returns the service as it stood at the throw: a failing query changes nothing, a
  missing model or a failing \<open>fit\<close> leaves only \<open>lastSampleSize\<close> changed. The loss kept
  is the last of the history (\<open>undefined\<close>, here \<open>None\<close>, if the history is empty).
\<close>

definition trainModel :: "tenv \<Rightarrow> service \<Rightarrow> service" where
  "trainModel te s =
     (case findRecent te 10000 of
        Inl err \<Rightarrow> s
      | Inr reports \<Rightarrow>
          if length reports < 10 then s
          else
            (let s1 = s\<lparr> lastSampleSize := length reports \<rparr>;
                 trainingData = map (trainingSample te reports) reports;
                 shuffled = shuffleArray (shuffle_rand te) trainingData
             in case model s1 of
                  None \<Rightarrow> s1
                | Some m \<Rightarrow>
                    (case fit te m shuffled of
                       Inl err \<Rightarrow> s1
                     | Inr (m', losses) \<Rightarrow>
                         s1\<lparr> model := Some m',
                             lastTrainedAt := Some (now_trained te),
                             modelLoss := (if losses = [] then None else Some (last losses)) \<rparr>)))"

subsection \<open>Hotspots\<close>

text \<open>What \<open>identifyHotspots\<close> reads from outside: the 500 most recent reports (or a
  throw), and the environment of its \<open>n\<close>-th call of \<open>predictSafety\<close>.\<close>

record henv =
  recentReports :: "error + report list"
  predictEnv :: "nat \<Rightarrow> penv"

text \<open>The filter inside the loop: the reports within 2 km of \<open>(lat, lng)\<close>.\<close>

definition nearbyWithin2km :: "real \<Rightarrow> real \<Rightarrow> report list \<Rightarrow> report list" where
  "nearbyWithin2km lat lng reports =
     filter (\<lambda>r. calculateDistance lat lng (r_lat r) (r_lng r) \<le> 2) reports"

definition categoryOf :: "real \<Rightarrow> string" where
  "categoryOf sc = (if sc > 0.7 then ''safe'' else if sc < 0.4 then ''unsafe'' else ''moderate'')"

text \<open>
  The \<open>for (const report of reports)\<close> loop: \<open>todo\<close> is what is left to visit,
  \<open>processedLocations\<close> the keys seen, \<open>k\<close> the number of \<open>predictSafety\<close> calls made,
  \<open>predictions\<close> the array built so far. Each prediction goes through the service, whose
  cache it may change.
\<close>

fun hotspotLoop :: "henv \<Rightarrow> report list \<Rightarrow> report list \<Rightarrow> key list \<Rightarrow> nat \<Rightarrow> hotspot list
    \<Rightarrow> service \<Rightarrow> hotspot list \<times> service" where
  "hotspotLoop he reports [] processedLocations k predictions s = (predictions, s)"
| "hotspotLoop he reports (report # todo) processedLocations k predictions s =
     (let lat = r_lat report;
          lng = r_lng report;
          locationKey = (toFixed 3 lat, toFixed 3 lng)
      in if locationKey \<in> set processedLocations
         then hotspotLoop he reports todo processedLocations k predictions s
         else
           (let nearbyReports = nearbyWithin2km lat lng reports
            in if length nearbyReports \<ge> 3
               then
                 (case predictSafety (predictEnv he k) lat lng s of
                    (p, s') \<Rightarrow>
                      hotspotLoop he reports todo (locationKey # processedLocations) (k + 1)
                        (predictions @
                           [\<lparr> location = \<lparr> pt_lat = lat, pt_lng = lng \<rparr>,
                              hsSafetyScore = score p,
                              hsConfidence = confidence p,
                              category = categoryOf (score p),
                              reportCount = length nearbyReports \<rparr>])
                        s')
               else hotspotLoop he reports todo (locationKey # processedLocations) k
                      predictions s))"

text \<open>The second loop: keep the first hotspot of each 5-decimal key.\<close>

fun uniqueByKey :: "key list \<Rightarrow> hotspot list \<Rightarrow> hotspot list" where
  "uniqueByKey seenKeys [] = []"
| "uniqueByKey seenKeys (h # hs) =
     (let k = cacheKey (pt_lat (location h)) (pt_lng (location h))
      in if k \<in> set seenKeys then uniqueByKey seenKeys hs
         else h # uniqueByKey (k # seenKeys) hs)"

text \<open>Sorting, the three top-5 slices and the deduplication. \<open>Array.prototype.sort\<close> is
  stable, as \<open>sort_key\<close> is; \<open>slice(-5)\<close> is the last five elements, or all if fewer.\<close>

definition selectHotspots :: "hotspot list \<Rightarrow> hotspot list" where
  "selectHotspots predictions =
     (let sortedByScore = sort_key (\<lambda>h. - hsSafetyScore h) predictions;
          safestLocations = take 5 sortedByScore;
          unsafestLocations = rev (drop (length sortedByScore - 5) sortedByScore);
          sortedByActivity = sort_key (\<lambda>h. - int (reportCount h)) predictions;
          mostActiveLocations = take 5 sortedByActivity;
          allHotspots = safestLocations @ unsafestLocations @ mostActiveLocations
      in uniqueByKey [] allHotspots)"

definition identifyHotspots :: "henv \<Rightarrow> service \<Rightarrow> service" where
  "identifyHotspots he s =
     (case recentReports he of
        Inl err \<Rightarrow> s
      | Inr reports \<Rightarrow>
          if length reports < 20 \<or> model s = None then s
          else
            (case hotspotLoop he reports reports [] 0 [] s of
               (predictions, s') \<Rightarrow> s'\<lparr> predictedHotspots := selectHotspots predictions \<rparr>))"

subsection \<open>The training scheduler\<close>

text \<open>
  \<open>processTrainingQueue\<close> is an \<open>async\<close> function: a call runs up to its first
  \<open>await\<close> at once, and the rest later. The part that runs at once is the guard and the
  two assignments; the flag tells whether the guard let the call through, that is,
  whether a training pass has begun.
\<close>

definition processTrainingQueue_begin :: "service \<Rightarrow> service \<times> bool" where
  "processTrainingQueue_begin s =
     (if isTraining s \<or> length (trainingQueue s) = 0 then (s, False)
      else (s\<lparr> isTraining := True, trainingQueue := [] \<rparr>, True))"

text \<open>The \<open>try\<close> block of a pass: \<open>trainModel\<close>, \<open>saveModel\<close> (which writes files only,
  and whose throw is caught), \<open>identifyHotspots\<close>.\<close>

definition processTrainingQueue_body :: "tenv \<Rightarrow> henv \<Rightarrow> service \<Rightarrow> service" where
  "processTrainingQueue_body te he s = identifyHotspots he (trainModel te s)"

text \<open>The \<open>finally\<close> block; the flag tells whether it sets the one-second timer.\<close>

definition processTrainingQueue_finally :: "service \<Rightarrow> service \<times> bool" where
  "processTrainingQueue_finally s =
     (s\<lparr> isTraining := False \<rparr>, length (trainingQueue s) > 0)"

text \<open>\<open>scheduleTraining\<close>; the flag tells whether its call of \<open>processTrainingQueue\<close>
  began a pass.\<close>

definition scheduleTraining :: "int \<Rightarrow> service \<Rightarrow> service \<times> bool" where
  "scheduleTraining now s =
     (if isTraining s then (s, False)
      else
        (case processTrainingQueue_begin (s\<lparr> trainingQueue := trainingQueue s @ [now] \<rparr>) of
           (s', began) \<Rightarrow> (s'\<lparr> predictionCache := Map.empty \<rparr>, began)))"

section \<open>The route controller\<close>

subsection \<open>Values\<close>

text \<open>
  The values \<open>totalScore\<close> and \<open>safetyScore\<close> can hold in \<open>getSafeRoutes\<close>: a number,
  \<open>NaN\<close>, a \<open>{ score, confidence }\<close> object, or a string that contains the text
  \<open>[object Object]\<close> (what \<open>+\<close> builds once an object is one of its operands; such a
  string stays one when more text is appended, and converts to the number \<open>NaN\<close>).
\<close>

datatype jsval = JNum real | JNaN | JObj prediction | JObjText

text \<open>The operator \<open>+\<close>: addition on two numbers, string concatenation as soon as an
  operand is an object or a string.\<close>

fun js_plus :: "jsval \<Rightarrow> jsval \<Rightarrow> jsval" where
  "js_plus (JNum a) (JNum b) = JNum (a + b)"
| "js_plus (JNum a) JNaN = JNaN"
| "js_plus JNaN (JNum b) = JNaN"
| "js_plus JNaN JNaN = JNaN"
| "js_plus _ _ = JObjText"

text \<open>\<open>totalScore / midPoints.length\<close>. With no midpoint nothing was added, the total is
  the number 0 and \<open>0 / 0\<close> is \<open>NaN\<close>.\<close>

fun js_over_length :: "jsval \<Rightarrow> nat \<Rightarrow> jsval" where
  "js_over_length (JNum a) n = (if n = 0 then JNaN else JNum (a / real n))"
| "js_over_length _ n = JNaN"

record route =
  start :: point
  endp :: point
  safetyScore :: jsval
  incidents :: nat

datatype body =
    ErrorMsg string
  | ServerError string
  | RoutesBody "route list"
  | ReportsBody "report list option"
  | SubmitBody report

text \<open>A response: the status and the JSON body (\<open>res.json\<close> alone answers 200).\<close>

type_synonym response = "nat \<times> body"

text \<open>\<open>JSON.parse(req.query.location)\<close> followed by \<open>const { lat, lng } = ...\<close>: a throw,
  or the two coordinates, each a number or missing.\<close>

datatype parsed = Threw error | Location "real option" "real option"

subsection \<open>Route generation\<close>

text \<open>The \<open>i\<close>-th iteration of \<open>generateRoutePoints\<close> draws \<open>Math.random()\<close> twice, first
  for the distance, then for the angle.\<close>

definition generateRoutePoints :: "(nat \<Rightarrow> real) \<Rightarrow> real \<Rightarrow> real \<Rightarrow> nat \<Rightarrow> real \<Rightarrow> point list" where
  "generateRoutePoints rnd lat lng count distanceKm =
     map (\<lambda>i.
       let earthRadius = 6371;
           variableDistance = distanceKm * (0.7 + rnd (2 * i) * 0.6);
           angle = (real i * 2 * pi) / real count + (rnd (2 * i + 1) * 0.2 - 0.1);
           newLat = lat + (variableDistance / earthRadius) * cos angle * (180 / pi);
           newLng = lng + (variableDistance / earthRadius) * sin angle * (180 / pi)
                          / cos (lat * pi / 180)
       in \<lparr> pt_lat = newLat, pt_lng = newLng \<rparr>) [0..<count]"

definition getMidPoints :: "real \<Rightarrow> real \<Rightarrow> real \<Rightarrow> real \<Rightarrow> nat \<Rightarrow> point list" where
  "getMidPoints lat1 lng1 lat2 lng2 count =
     map (\<lambda>i.
       let fraction = real i / real (count + 1);
           perpFactor = sin (fraction * pi) * 0.0001;
           dx = lat2 - lat1;
           dy = lng2 - lng1
       in \<lparr> pt_lat = lat1 + fraction * dx + perpFactor * dy,
            pt_lng = lng1 + fraction * dy - perpFactor * dx \<rparr>) [1..<count + 1]"

subsection \<open>Route scoring\<close>

text \<open>
  The controller's collaborators: the \<open>k\<close>-th call of \<open>SafetyMLService.predictSafety\<close>,
  a promise that resolves to an object or rejects; the \<open>k\<close>-th call of
  \<open>SafetyReport.findNearby\<close>, which throws or returns a list or nothing; and the
  \<open>Math.random()\<close> draws.
\<close>

record cenv =
  predictSafetyCall :: "nat \<Rightarrow> real \<Rightarrow> real \<Rightarrow> error + prediction"
  findNearbyCall :: "nat \<Rightarrow> real \<Rightarrow> real \<Rightarrow> real \<Rightarrow> error + report list option"
  random :: "nat \<Rightarrow> real"

text \<open>The inner loop over the midpoints of one leg; \<open>k\<close> counts the midpoints visited
  since the request began. A rejected prediction is caught and replaced by \<open>0.5\<close>; a
  throw of \<open>findNearby\<close> leaves the loop.\<close>

fun scoreMidPoints :: "cenv \<Rightarrow> nat \<Rightarrow> point list \<Rightarrow> jsval \<Rightarrow> nat \<Rightarrow> error + (jsval \<times> nat)" where
  "scoreMidPoints ce k [] totalScore incidentsAcc = Inr (totalScore, incidentsAcc)"
| "scoreMidPoints ce k (midPoint # rest) totalScore incidentsAcc =
     (let sc = (case predictSafetyCall ce k (pt_lat midPoint) (pt_lng midPoint) of
                  Inl err \<Rightarrow> JNum 0.5
                | Inr p \<Rightarrow> JObj p);
          totalScore' = js_plus totalScore sc
      in case findNearbyCall ce k (pt_lat midPoint) (pt_lng midPoint) 0.2 of
           Inl err \<Rightarrow> Inl err
         | Inr found \<Rightarrow>
            (let nearbyReports = (case found of None \<Rightarrow> [] | Some rs \<Rightarrow> rs);
                 unsafeReports = filter (\<lambda>r. r_type r \<in> set unsafe_types) nearbyReports
             in scoreMidPoints ce (k + 1) rest totalScore'
                  (incidentsAcc + length unsafeReports)))"

text \<open>The outer loop over the route points.\<close>

fun scoreRoutePoints :: "cenv \<Rightarrow> real \<Rightarrow> real \<Rightarrow> nat \<Rightarrow> point list \<Rightarrow> route list
    \<Rightarrow> error + route list" where
  "scoreRoutePoints ce lat lng k [] routes = Inr routes"
| "scoreRoutePoints ce lat lng k (pnt # rest) routes =
     (let midPoints = getMidPoints lat lng (pt_lat pnt) (pt_lng pnt) 3
      in case scoreMidPoints ce k midPoints (JNum 0) 0 of
           Inl err \<Rightarrow> Inl err
         | Inr (totalScore, incidentsAcc) \<Rightarrow>
             scoreRoutePoints ce lat lng (k + length midPoints) rest
               (routes @ [\<lparr> start = \<lparr> pt_lat = lat, pt_lng = lng \<rparr>,
                            endp = pnt,
                            safetyScore = js_over_length totalScore (length midPoints),
                            incidents = incidentsAcc \<rparr>]))"

definition invalidLocation :: response where
  "invalidLocation = (400, ErrorMsg ''Invalid location data'')"

text \<open>\<open>getSafeRoutes\<close>. The test \<open>!lat || !lng\<close> is true for a missing coordinate and for
  the number 0. Anything thrown inside the \<open>try\<close> is answered with status 500.\<close>

definition getSafeRoutes :: "cenv \<Rightarrow> parsed \<Rightarrow> response" where
  "getSafeRoutes ce loc =
     (case loc of
        Threw (Error msg) \<Rightarrow> (500, ServerError msg)
      | Location olat olng \<Rightarrow>
          (case (olat, olng) of
             (Some lat, Some lng) \<Rightarrow>
               if lat = 0 \<or> lng = 0 then invalidLocation
               else
                 (let routePoints = generateRoutePoints (random ce) lat lng 8 1
                  in case scoreRoutePoints ce lat lng 0 routePoints [] of
                       Inl (Error msg) \<Rightarrow> (500, ServerError msg)
                     | Inr routes \<Rightarrow> (200, RoutesBody routes))
           | _ \<Rightarrow> invalidLocation))"

text \<open>\<open>getReports\<close>; \<open>parseFloat(req.query.radius) || 1\<close> is 1 when the parameter is
  absent, unreadable (here \<open>None\<close>) or 0.\<close>

definition getReports :: "cenv \<Rightarrow> parsed \<Rightarrow> real option \<Rightarrow> response" where
  "getReports ce loc oradius =
     (case loc of
        Threw (Error msg) \<Rightarrow> (500, ServerError msg)
      | Location olat olng \<Rightarrow>
          (let radius = (case oradius of None \<Rightarrow> 1 | Some x \<Rightarrow> if x = 0 then 1 else x)
           in case (olat, olng) of
                (Some lat, Some lng) \<Rightarrow>
                  if lat = 0 \<or> lng = 0 then invalidLocation
                  else
                    (case findNearbyCall ce 0 lat lng radius of
                       Inl (Error msg) \<Rightarrow> (500, ServerError msg)
                     | Inr reports \<Rightarrow> (200, ReportsBody reports))
              | _ \<Rightarrow> invalidLocation))"

subsection \<open>Report submission\<close>

text \<open>The fields \<open>submitReport\<close> takes from \<open>req.body\<close>, each possibly missing.\<close>

record submission =
  b_location :: "point option"
  b_description :: "string option"
  b_type :: "string option"
  b_severity :: "real option"

text \<open>The document handed to \<open>new SafetyReport\<close>.\<close>

record new_report =
  n_coordinates :: "real \<times> real"
  n_description :: string
  n_type :: "string option"
  n_severity :: real
  n_timestamp :: int

text \<open>The collaborators of \<open>submitReport\<close>: \<open>report.save()\<close>, \<open>getIO()\<close>, the clock.\<close>

record senv =
  save :: "new_report \<Rightarrow> error + report"
  getIO :: "error + unit"
  now_submit :: int

text \<open>The calls \<open>submitReport\<close> makes on its collaborators, in order.\<close>

datatype call = Save new_report | Emit string report | ScheduleTraining

definition missingFields :: response where
  "missingFields = (400, ErrorMsg ''Missing required fields'')"

definition submitReport :: "senv \<Rightarrow> submission \<Rightarrow> response \<times> call list" where
  "submitReport se b =
     (case (b_location b, b_description b) of
        (Some loc, Some description) \<Rightarrow>
          if description = [] then (missingFields, [])
          else
            (let doc = \<lparr> n_coordinates = (pt_lng loc, pt_lat loc),
                         n_description = description,
                         n_type = b_type b,
                         n_severity = (case b_severity b of
                                         None \<Rightarrow> 3
                                       | Some v \<Rightarrow> if v = 0 then 3 else v),
                         n_timestamp = now_submit se \<rparr>
             in case save se doc of
                  Inl (Error msg) \<Rightarrow> ((500, ServerError msg), [Save doc])
                | Inr savedReport \<Rightarrow>
                    (case getIO se of
                       Inl (Error msg) \<Rightarrow> ((500, ServerError msg), [Save doc])
                     | Inr io \<Rightarrow>
                         ((201, SubmitBody savedReport),
                          [Save doc, Emit ''safetyUpdate'' savedReport, ScheduleTraining])))
      | _ \<Rightarrow> (missingFields, []))"

section \<open>The service over time\<close>

text \<open>
  The service is a singleton that request handlers, timers and the training pass all
  act on. Node runs one piece of code at a time, so the service's history is a sequence
  of steps. Beside the service itself two counters are kept, which the program does not
  store: how many calls of \<open>processTrainingQueue\<close> have passed the guard and not yet
  reached \<open>finally\<close> (the passes in flight), and how many one-second timers are set.
\<close>

record system =
  svc :: service
  activePasses :: nat
  pendingTimers :: nat

definition boot :: system where
  "boot = \<lparr> svc = new_service, activePasses = 0, pendingTimers = 0 \<rparr>"

text \<open>Taking the outcome of the guard of \<open>processTrainingQueue\<close> into the counters.\<close>

definition enter :: "service \<times> bool \<Rightarrow> system \<Rightarrow> system" where
  "enter res y =
     y\<lparr> svc := fst res, activePasses := activePasses y + (if snd res then 1 else 0) \<rparr>"

text \<open>Taking the outcome of \<open>finally\<close> into the counters.\<close>

definition leave :: "service \<times> bool \<Rightarrow> system \<Rightarrow> system" where
  "leave res y =
     y\<lparr> svc := fst res, activePasses := activePasses y - 1,
        pendingTimers := pendingTimers y + (if snd res then 1 else 0) \<rparr>"

text \<open>
  The states the service can be in. \<open>loaded\<close> is \<open>initModel\<close> installing a loaded or
  a new model (with the metadata it read, if any); \<open>timer\<close> is a timer of \<open>finally\<close>
  firing; \<open>train\<close> and \<open>finish\<close> belong to a pass in flight; \<open>hotspots\<close> also serves
  \<open>getNearbyHotspots\<close>; \<open>predict\<close> is a call of \<open>predictSafety\<close> that nothing
  interrupts, \<open>resume\<close> one that goes on after its \<open>await\<close> in whatever state the
  service is in by then. Nothing is assumed of the clock, the store or the model.
\<close>

inductive reachable :: "system \<Rightarrow> bool" where
  boot: "reachable boot"
| loaded: "reachable y \<Longrightarrow>
     reachable (y\<lparr> svc := (svc y)\<lparr> model := Some m, modelLoss := l, lastTrainedAt := t,
                                    lastSampleSize := n \<rparr> \<rparr>)"
| schedule: "reachable y \<Longrightarrow> reachable (enter (scheduleTraining now (svc y)) y)"
| timer: "reachable y \<Longrightarrow> pendingTimers y > 0 \<Longrightarrow>
     reachable (enter (processTrainingQueue_begin (svc y))
                  (y\<lparr> pendingTimers := pendingTimers y - 1 \<rparr>))"
| train: "reachable y \<Longrightarrow> activePasses y > 0 \<Longrightarrow>
     reachable (y\<lparr> svc := trainModel te (svc y) \<rparr>)"
| hotspots: "reachable y \<Longrightarrow> reachable (y\<lparr> svc := identifyHotspots he (svc y) \<rparr>)"
| finish: "reachable y \<Longrightarrow> activePasses y > 0 \<Longrightarrow>
     reachable (leave (processTrainingQueue_finally (svc y)) y)"
| predict: "reachable y \<Longrightarrow>
     reachable (y\<lparr> svc := snd (predictSafety e la lo (svc y)) \<rparr>)"
| resume: "reachable y \<Longrightarrow>
     reachable (y\<lparr> svc := snd (predictSafety_complete e la lo (svc y)) \<rparr>)"
| cleanup: "reachable y \<Longrightarrow> reachable (y\<lparr> svc := cleanupCache now (svc y) \<rparr>)"

section \<open>Properties stated below\<close>

definition prediction_ok :: "'a prediction_scheme \<Rightarrow> bool" where
  "prediction_ok p =
     (0.1 \<le> score p \<and> score p \<le> 0.9 \<and> 0 \<le> confidence p \<and> confidence p \<le> 1)"

definition cache_ok :: "service \<Rightarrow> bool" where
  "cache_ok s = (\<forall>k c. predictionCache s k = Some c \<longrightarrow> prediction_ok c)"

text \<open>The reports a query returns are not dated after the clock reading that follows
  it. \<open>submitReport\<close> stamps a report with the server's clock, but nothing in the service
  checks the dates it reads.\<close>

definition reports_not_future :: "penv \<Rightarrow> real \<Rightarrow> real \<Rightarrow> bool" where
  "reports_not_future e lat lng =
     (case findNearby e lat lng 0.5 of
        Inl err \<Rightarrow> True
      | Inr rs \<Rightarrow> list_all (\<lambda>r. r_timestamp r \<le> now_feat e) rs)"

text \<open>The scores of the routes a response carries (none if it carries no routes).\<close>

definition routeScores :: "response \<Rightarrow> jsval list" where
  "routeScores resp = (case snd resp of RoutesBody routes \<Rightarrow> map safetyScore routes | _ \<Rightarrow> [])"

text \<open>Conditions on the controller's collaborators: the store answers every
  \<open>findNearby\<close> with radius 0.2; every prediction is rejected; every prediction
  resolves.\<close>

definition store_answers :: "cenv \<Rightarrow> bool" where
  "store_answers ce = (\<forall>k la lo. \<exists>found. findNearbyCall ce k la lo 0.2 = Inr found)"

definition predictions_fail :: "cenv \<Rightarrow> bool" where
  "predictions_fail ce = (\<forall>k la lo. \<exists>err. predictSafetyCall ce k la lo = Inl err)"

definition predictions_resolve :: "cenv \<Rightarrow> bool" where
  "predictions_resolve ce = (\<forall>k la lo. \<exists>p. predictSafetyCall ce k la lo = Inr p)"

text \<open>
  The calls of one request, by leg \<open>j\<close> and midpoint \<open>i\<close>: call number \<open>3 * j + i\<close> is
  made at the \<open>i\<close>-th midpoint of leg \<open>j\<close>. A call of \<open>findNearby\<close> answers or
  throws; a call of \<open>predictSafety\<close> resolves or is rejected; one call comes before
  another when its leg is earlier, or its midpoint within the same leg.
\<close>

definition legMidPoints :: "cenv \<Rightarrow> real \<Rightarrow> real \<Rightarrow> nat \<Rightarrow> point list" where
  "legMidPoints ce lat lng j =
     (let pnt = generateRoutePoints (random ce) lat lng 8 1 ! j
      in getMidPoints lat lng (pt_lat pnt) (pt_lng pnt) 3)"

definition callAnswers :: "cenv \<Rightarrow> nat \<Rightarrow> point \<Rightarrow> bool" where
  "callAnswers ce k mp = (\<not> isl (findNearbyCall ce k (pt_lat mp) (pt_lng mp) 0.2))"

definition callThrows :: "cenv \<Rightarrow> nat \<Rightarrow> point \<Rightarrow> error \<Rightarrow> bool" where
  "callThrows ce k mp err = (findNearbyCall ce k (pt_lat mp) (pt_lng mp) 0.2 = Inl err)"

definition callRejected :: "cenv \<Rightarrow> nat \<Rightarrow> point \<Rightarrow> bool" where
  "callRejected ce k mp = isl (predictSafetyCall ce k (pt_lat mp) (pt_lng mp))"

definition callsBefore :: "nat \<Rightarrow> nat \<Rightarrow> nat \<Rightarrow> nat \<Rightarrow> bool" where
  "callsBefore j' i' j i = (j' < j \<or> (j' = j \<and> i' < i))"

text \<open>The number of unsafe, incident and suspicious reports the \<open>k\<close>-th \<open>findNearby\<close>
  returns around a midpoint.\<close>

definition unsafeNearby :: "cenv \<Rightarrow> nat \<Rightarrow> point \<Rightarrow> nat" where
  "unsafeNearby ce k mp =
     (case findNearbyCall ce k (pt_lat mp) (pt_lng mp) 0.2 of
        Inr (Some rs) \<Rightarrow> length (filter (\<lambda>r. r_type r \<in> set unsafe_types) rs)
      | _ \<Rightarrow> 0)"

text \<open>A hotspot entry qualifies against a list of reports when it sits at the
  coordinates of one of them and its \<open>reportCount\<close> is the number of reports within 2 km
  of it, which is at least 3. A list of reports is sparse when none of them has 3 reports
  (itself included) within 2 km.\<close>

definition hotspot_qualifies :: "report list \<Rightarrow> hotspot \<Rightarrow> bool" where
  "hotspot_qualifies reports h =
     (3 \<le> reportCount h
      \<and> reportCount h
          = length (nearbyWithin2km (pt_lat (location h)) (pt_lng (location h)) reports)
      \<and> list_ex (\<lambda>r. r_lat r = pt_lat (location h) \<and> r_lng r = pt_lng (location h)) reports)"

definition sparse :: "report list \<Rightarrow> bool" where
  "sparse reports =
     list_all (\<lambda>r. length (nearbyWithin2km (r_lat r) (r_lng r) reports) < 3) reports"

section \<open>Collaborators and inputs of the examples\<close>

definition example_report :: report where
  "example_report = \<lparr> r_lat = 28.6, r_lng = 77.2, r_type = ''unsafe'', r_severity = 4,
     r_timestamp = 1000, r_description = ''unlit underpass'' \<rparr>"

definition store_with_one :: "real \<Rightarrow> real \<Rightarrow> real \<Rightarrow> error + report list" where
  "store_with_one la lo radius = Inr [example_report]"

definition store_empty :: "real \<Rightarrow> real \<Rightarrow> real \<Rightarrow> error + report list" where
  "store_empty la lo radius = Inr []"

definition store_down :: "real \<Rightarrow> real \<Rightarrow> real \<Rightarrow> error + report list" where
  "store_down la lo radius = Inl (Error ''store down'')"

definition example_model :: tfmodel where
  "example_model input = Inr (1 / 2)"

definition model_down :: tfmodel where
  "model_down input = Inl (Error ''inference failed'')"

text \<open>A midday environment with one clock reading \<open>t\<close> and the random draw \<open>u\<close>.\<close>

definition example_penv :: "(real \<Rightarrow> real \<Rightarrow> real \<Rightarrow> error + report list) \<Rightarrow> real \<Rightarrow> int \<Rightarrow> penv" where
  "example_penv store u t = \<lparr> now_check = t, now_feat = t, feat_hour = 12, feat_day = 3,
     heur_hour = 12, rand = u, now_write = t, findNearby = store \<rparr>"

definition predict_down :: "nat \<Rightarrow> real \<Rightarrow> real \<Rightarrow> error + prediction" where
  "predict_down k la lo = Inl (Error ''model down'')"

definition predict_safe :: "nat \<Rightarrow> real \<Rightarrow> real \<Rightarrow> error + prediction" where
  "predict_safe k la lo = Inr \<lparr> score = 0.8, confidence = 0.5 \<rparr>"

definition nearby_none :: "nat \<Rightarrow> real \<Rightarrow> real \<Rightarrow> real \<Rightarrow> error + report list option" where
  "nearby_none k la lo radius = Inr (Some [])"

definition nearby_down :: "nat \<Rightarrow> real \<Rightarrow> real \<Rightarrow> real \<Rightarrow> error + report list option" where
  "nearby_down k la lo radius = Inl (Error ''store down'')"

text \<open>A store that answers the first \<open>n\<close> calls of a request and throws from then on.\<close>

definition nearby_down_from :: "nat \<Rightarrow> nat \<Rightarrow> real \<Rightarrow> real \<Rightarrow> real
    \<Rightarrow> error + report list option" where
  "nearby_down_from n k la lo radius =
     (if k < n then Inr (Some []) else Inl (Error ''store down''))"

definition random_half :: "nat \<Rightarrow> real" where
  "random_half k = 1 / 2"

definition example_cenv :: "(nat \<Rightarrow> real \<Rightarrow> real \<Rightarrow> error + prediction)
    \<Rightarrow> (nat \<Rightarrow> real \<Rightarrow> real \<Rightarrow> real \<Rightarrow> error + report list option) \<Rightarrow> cenv" where
  "example_cenv pr fn = \<lparr> predictSafetyCall = pr, findNearbyCall = fn, random = random_half \<rparr>"

definition save_ok :: "new_report \<Rightarrow> error + report" where
  "save_ok d = Inr \<lparr> r_lat = snd (n_coordinates d), r_lng = fst (n_coordinates d),
     r_type = (case n_type d of None \<Rightarrow> ''safe'' | Some t \<Rightarrow> t),
     r_severity = n_severity d, r_timestamp = n_timestamp d,
     r_description = n_description d \<rparr>"

definition example_senv :: senv where
  "example_senv = \<lparr> save = save_ok, getIO = Inr (), now_submit = 5000 \<rparr>"

definition quiet_street :: submission where
  "quiet_street = \<lparr> b_location = Some \<lparr> pt_lat = 28.6, pt_lng = 77.2 \<rparr>,
     b_description = Some ''quiet street'', b_type = Some ''safe'', b_severity = Some 1 \<rparr>"

definition few_reports :: "nat \<Rightarrow> error + report list" where
  "few_reports n = Inr (take n [example_report, example_report, example_report])"

definition fit_ok :: "tfmodel \<Rightarrow> sample list \<Rightarrow> error + (tfmodel \<times> real list)" where
  "fit_ok m samples = Inr (m, [0.04, 0.02])"

definition hours_utc :: "int \<Rightarrow> nat" where
  "hours_utc t = nat ((t div 3600000) mod 24)"

definition day_utc :: "int \<Rightarrow> nat" where
  "day_utc t = nat ((t div 86400000 + 4) mod 7)"

definition example_tenv :: tenv where
  "example_tenv = \<lparr> findRecent = few_reports, now_train = 9000, getHours = hours_utc,
     getDay = day_utc, shuffle_rand = random_half, fit = fit_ok, now_trained = 9500 \<rparr>"

text \<open>What the service keeps true at every step (shown below for every reachable
  state): the flag \<open>isTraining\<close> is set exactly while one pass is in flight, the queue
  is empty between steps and no timer is set.\<close>

definition single_flight :: "system \<Rightarrow> bool" where
  "single_flight y =
     (activePasses y = (if isTraining (svc y) then 1 else 0)
      \<and> trainingQueue (svc y) = []
      \<and> pendingTimers y = 0)"

text \<open>A service whose model is loaded; the same with a training pass begun at 500; and
  each of the two after a prediction for (0, 0) was cached at 1000.\<close>

definition loaded_service :: service where
  "loaded_service = new_service\<lparr> model := Some example_model \<rparr>"

definition training_service :: service where
  "training_service = fst (scheduleTraining 500 loaded_service)"

definition cached_service :: service where
  "cached_service = snd (predictSafety (example_penv store_empty 0 1000) 0 0 loaded_service)"


text \<open>Twenty reports one degree of latitude apart, twenty reports at one place, and a
  hotspot entry left from an earlier run.\<close>

definition spread_reports :: "report list" where
  "spread_reports = map (\<lambda>i. example_report\<lparr> r_lat := real i \<rparr>) [0..<20]"

definition example_henv :: henv where
  "example_henv = \<lparr> recentReports = Inr spread_reports,
     predictEnv = (\<lambda>k. example_penv store_empty (1 / 2) 2000) \<rparr>"

definition old_hotspot :: hotspot where
  "old_hotspot = \<lparr> location = \<lparr> pt_lat = 28.6, pt_lng = 77.2 \<rparr>, hsSafetyScore = 0.3,
     hsConfidence = 0.5, category = ''unsafe'', reportCount = 4 \<rparr>"

definition cluster_reports :: "report list" where
  "cluster_reports = replicate 20 example_report"

definition cluster_henv :: henv where
  "cluster_henv = \<lparr> recentReports = Inr cluster_reports,
     predictEnv = (\<lambda>k. example_penv store_empty (1 / 2) 2000) \<rparr>"

text \<open>A report dated thirty days after the clock reading 2000, one dated a millisecond
  after it, and a store that returns ten of the former.\<close>

definition future_report :: report where
  "future_report = example_report\<lparr> r_timestamp := 2592002000 \<rparr>"

definition skewed_report :: report where
  "skewed_report = example_report\<lparr> r_timestamp := 2001 \<rparr>"

definition store_future :: "real \<Rightarrow> real \<Rightarrow> real \<Rightarrow> error + report list" where
  "store_future la lo radius = Inr (replicate 10 future_report)"

section \<open>Predictions stay in range\<close>

text \<open>The heuristic score and the adjusted model score are clamped to [0.1, 0.9]; the
  confidence is a weighted mean of two factors that lie in [0, 1] when no report is dated
  after the clock reading, and only then.\<close>

lemma clamp_range:
  fixes x :: real
  shows "0.1 \<le> max 0.1 (min 0.9 x)" and "max 0.1 (min 0.9 x) \<le> 0.9"
  by (simp_all add: max_def min_def)

lemma getHeuristicSafety_range:
  "0.1 \<le> getHeuristicSafety e lat lng \<and> getHeuristicSafety e lat lng \<le> 0.9"
  unfolding getHeuristicSafety_def Let_def
  using clamp_range by blast

lemma heuristic_prediction_ok:
  "prediction_ok \<lparr> score = getHeuristicSafety e lat lng, confidence = 0.5 \<rparr>"
  using getHeuristicSafety_range [of e lat lng] by (simp add: prediction_ok_def)

lemma sum_list_nonneg_real:
  fixes f :: "'a \<Rightarrow> real"
  shows "list_all (\<lambda>x. 0 \<le> f x) xs \<Longrightarrow> 0 \<le> (\<Sum>x\<leftarrow>xs. f x)"
  by (induction xs) auto

lemma days_between_nonneg: "t \<le> now \<Longrightarrow> 0 \<le> days_between now t"
  by (simp add: days_between_def)

lemma avgDaysSince_nonneg:
  assumes "list_all (\<lambda>r. r_timestamp r \<le> now_feat e) rs"
  shows "0 \<le> avgDaysSince e rs"
proof -
  have "list_all (\<lambda>r. 0 \<le> days_between (now_feat e) (r_timestamp r)) rs"
    using assms by (induction rs) (auto simp: days_between_nonneg)
  then have "0 \<le> (\<Sum>r\<leftarrow>rs. days_between (now_feat e) (r_timestamp r))"
    by (rule sum_list_nonneg_real)
  then show ?thesis by (simp add: avgDaysSince_def)
qed

lemma confidence_formula_range:
  fixes n a :: real
  assumes "0 \<le> n" and "0 \<le> a"
  shows "0 \<le> min 1 (n / 10) * 0.7 + max 0.5 (1 - a / 30) * 0.3"
    and "min 1 (n / 10) * 0.7 + max 0.5 (1 - a / 30) * 0.3 \<le> 1"
  using assms by (auto simp: max_def min_def field_simps)

lemma confidenceFrom_range:
  assumes "list_all (\<lambda>r. r_timestamp r \<le> now_feat e) rs"
  shows "0 \<le> confidenceFrom e rs" and "confidenceFrom e rs \<le> 1"
  unfolding confidenceFrom_def Let_def
  using confidence_formula_range [OF _ avgDaysSince_nonneg [OF assms], of "real (length rs)"]
  by simp_all

lemma adjustedScore_range:
  "0.1 \<le> adjustedScore e rs p \<and> adjustedScore e rs p \<le> 0.9"
  unfolding adjustedScore_def Let_def using clamp_range by blast

lemma inferSafety_range:
  assumes "list_all (\<lambda>r. r_timestamp r \<le> now_feat e) rs"
    and "inferSafety e m lat lng rs = Inr p"
  shows "prediction_ok p"
proof (cases "m (featureVector e lat lng rs)")
  case (Inl err)
  with assms(2) show ?thesis by (simp add: inferSafety_def)
next
  case (Inr v)
  with assms(2) have p: "p = \<lparr> score = adjustedScore e rs v, confidence = confidenceFrom e rs \<rparr>"
    by (simp add: inferSafety_def)
  show ?thesis
    unfolding p prediction_ok_def
    using adjustedScore_range [of e rs v] confidenceFrom_range [OF assms(1)] by simp
qed

lemma tryPredict_range:
  assumes "reports_not_future e lat lng" and "tryPredict e m lat lng = Inr p"
  shows "prediction_ok p"
proof (cases "findNearby e lat lng 0.5")
  case (Inl err)
  with assms(2) show ?thesis by (simp add: tryPredict_def)
next
  case (Inr rs)
  with assms(1) have past: "list_all (\<lambda>r. r_timestamp r \<le> now_feat e) rs"
    by (simp add: reports_not_future_def)
  show ?thesis
  proof (cases "length rs = 0")
    case True
    with Inr assms(2) show ?thesis
      using heuristic_prediction_ok [of e lat lng] by (auto simp: tryPredict_def)
  next
    case False
    with Inr assms(2) have "inferSafety e m lat lng rs = Inr p"
      by (simp add: tryPredict_def)
    with past show ?thesis by (rule inferSafety_range)
  qed
qed

lemma cacheSet_ok: "cache_ok s \<Longrightarrow> prediction_ok p \<Longrightarrow> cache_ok (cacheSet e k p s)"
  by (auto simp: cache_ok_def cacheSet_def prediction_ok_def)

lemma cachedFresh_Some:
  "cachedFresh e k s = Some c \<Longrightarrow>
     predictionCache s k = Some c \<and> timestamp c > now_check e - cacheTTL"
  by (simp add: cachedFresh_def split: option.splits if_splits)

lemma cachedFresh_ok: "cache_ok s \<Longrightarrow> cachedFresh e k s = Some c \<Longrightarrow> prediction_ok c"
  using cachedFresh_Some unfolding cache_ok_def by blast

lemma predictSafety_ok:
  assumes "cache_ok s" and "reports_not_future e lat lng"
  shows "prediction_ok (fst (predictSafety e lat lng s))
       \<and> cache_ok (snd (predictSafety e lat lng s))"
proof (cases "model s")
  case None
  then show ?thesis
    using assms(1) heuristic_prediction_ok [of e lat lng]
    by (simp add: predictSafety_def Let_def cacheSet_ok)
next
  case (Some m)
  show ?thesis
  proof (cases "cachedFresh e (cacheKey lat lng) s")
    case (Some c)
    have "prediction_ok c" by (rule cachedFresh_ok [OF assms(1) Some])
    then have "prediction_ok \<lparr> score = score c, confidence = confidence c \<rparr>"
      by (simp add: prediction_ok_def)
    with Some \<open>model s = Some m\<close> assms(1) show ?thesis
      by (simp add: predictSafety_def)
  next
    case None
    show ?thesis
    proof (cases "tryPredict e m lat lng")
      case (Inl err)
      with None \<open>model s = Some m\<close> show ?thesis
        using assms(1) heuristic_prediction_ok [of e lat lng]
        by (simp add: predictSafety_def Let_def cacheSet_ok)
    next
      case (Inr p)
      with assms(2) have "prediction_ok p" by (rule tryPredict_range)
      with Inr None \<open>model s = Some m\<close> assms(1) show ?thesis
        by (simp add: predictSafety_def cacheSet_ok)
    qed
  qed
qed

section \<open>What each operation leaves unchanged\<close>

text \<open>Predicting touches the cache only; training touches the model and its metadata
  only; the hotspot run touches the cache and the hotspot set only.\<close>

lemma predictSafety_frame:
  "\<exists>c. snd (predictSafety e lat lng s) = s\<lparr> predictionCache := c \<rparr>"
  by (auto simp: predictSafety_def Let_def cacheSet_def intro: exI [of _ "predictionCache s"]
           split: option.splits sum.splits)

lemma predictSafety_keeps:
  "model (snd (predictSafety e lat lng s)) = model s"
  "isTraining (snd (predictSafety e lat lng s)) = isTraining s"
  "trainingQueue (snd (predictSafety e lat lng s)) = trainingQueue s"
  "predictedHotspots (snd (predictSafety e lat lng s)) = predictedHotspots s"
  by (simp_all add: predictSafety_def Let_def cacheSet_def split: option.splits sum.splits)

lemma trainModel_keeps:
  "isTraining (trainModel te s) = isTraining s"
  "trainingQueue (trainModel te s) = trainingQueue s"
  "predictionCache (trainModel te s) = predictionCache s"
  "predictedHotspots (trainModel te s) = predictedHotspots s"
  by (simp_all add: trainModel_def Let_def split: option.splits sum.splits prod.splits)

lemma predictSafety_complete_keeps:
  "model (snd (predictSafety_complete e lat lng s)) = model s"
  "isTraining (snd (predictSafety_complete e lat lng s)) = isTraining s"
  "trainingQueue (snd (predictSafety_complete e lat lng s)) = trainingQueue s"
  "predictedHotspots (snd (predictSafety_complete e lat lng s)) = predictedHotspots s"
  by (simp_all add: predictSafety_complete_def Let_def cacheSet_def)

lemma predictSafety_two_parts:
  "predictSafety e lat lng s =
     (case predictSafety_lookup e lat lng s of
        Some r \<Rightarrow> r
      | None \<Rightarrow> predictSafety_complete e lat lng s)"
  by (simp add: predictSafety_def predictSafety_lookup_def predictSafety_complete_def Let_def
           split: option.splits sum.splits)

lemma hotspotLoop_keeps:
  assumes "hotspotLoop he reports todo seen k preds s = (preds', s')"
  shows "isTraining s' = isTraining s \<and> trainingQueue s' = trainingQueue s
       \<and> model s' = model s"
  using assms
proof (induction todo arbitrary: seen k preds s)
  case Nil
  then show ?case by simp
next
  case (Cons r todo)
  let ?key = "(toFixed 3 (r_lat r), toFixed 3 (r_lng r))"
  show ?case
  proof (cases "?key \<in> set seen")
    case True
    with Cons.prems have "hotspotLoop he reports todo seen k preds s = (preds', s')"
      by (simp add: Let_def)
    from Cons.IH [OF this] show ?thesis .
  next
    case False
    show ?thesis
    proof (cases "length (nearbyWithin2km (r_lat r) (r_lng r) reports) \<ge> 3")
      case far: False
      with False Cons.prems
      have "hotspotLoop he reports todo (?key # seen) k preds s = (preds', s')"
        by (simp add: Let_def)
      from Cons.IH [OF this] show ?thesis .
    next
      case near: True
      obtain p s1 where ps: "predictSafety (predictEnv he k) (r_lat r) (r_lng r) s = (p, s1)"
        by (cases "predictSafety (predictEnv he k) (r_lat r) (r_lng r) s")
      from ps predictSafety_keeps [of "predictEnv he k" "r_lat r" "r_lng r" s]
      have keep1: "isTraining s1 = isTraining s" "trainingQueue s1 = trainingQueue s"
        "model s1 = model s" by simp_all
      from near False Cons.prems ps obtain preds1
        where "hotspotLoop he reports todo (?key # seen) (k + 1) preds1 s1 = (preds', s')"
        by (simp add: Let_def)
      from Cons.IH [OF this] keep1 show ?thesis by simp
    qed
  qed
qed

lemma identifyHotspots_keeps:
  "isTraining (identifyHotspots he s) = isTraining s
   \<and> trainingQueue (identifyHotspots he s) = trainingQueue s
   \<and> model (identifyHotspots he s) = model s"
proof (cases "recentReports he")
  case (Inl err)
  then show ?thesis by (simp add: identifyHotspots_def)
next
  case (Inr reports)
  show ?thesis
  proof (cases "length reports < 20 \<or> model s = None")
    case True
    with Inr show ?thesis by (auto simp: identifyHotspots_def)
  next
    case False
    obtain preds s' where l: "hotspotLoop he reports reports [] 0 [] s = (preds, s')"
      by (cases "hotspotLoop he reports reports [] 0 [] s")
    from hotspotLoop_keeps [OF l]
    have "isTraining s' = isTraining s \<and> trainingQueue s' = trainingQueue s
       \<and> model s' = model s" .
    moreover from Inr False l
    have "identifyHotspots he s = s'\<lparr> predictedHotspots := selectHotspots preds \<rparr>"
      by (auto simp: identifyHotspots_def)
    ultimately show ?thesis by simp
  qed
qed

lemma cleanupCache_keeps:
  "isTraining (cleanupCache now s) = isTraining s"
  "trainingQueue (cleanupCache now s) = trainingQueue s"
  by (simp_all add: cleanupCache_def)

lemma scheduleTraining_eq:
  "scheduleTraining now s =
     (if isTraining s then (s, False)
      else (s\<lparr> trainingQueue := [], isTraining := True, predictionCache := Map.empty \<rparr>, True))"
  by (simp add: scheduleTraining_def processTrainingQueue_begin_def)

section \<open>The invariant of the service\<close>

text \<open>By induction over the steps of the service.\<close>

lemma reachable_single_flight: "reachable y \<Longrightarrow> single_flight y"
proof (induction rule: reachable.induct)
  case boot
  show ?case by (simp add: single_flight_def boot_def new_service_def)
next
  case (loaded y m l t n)
  then show ?case by (simp add: single_flight_def)
next
  case (schedule y now)
  then show ?case
    by (simp add: single_flight_def enter_def scheduleTraining_eq)
next
  case (timer y)
  then show ?case by (simp add: single_flight_def)
next
  case (train y te)
  then show ?case by (simp add: single_flight_def trainModel_keeps)
next
  case (hotspots y he)
  with identifyHotspots_keeps [of he "svc y"] show ?case by (simp add: single_flight_def)
next
  case (finish y)
  then show ?case
    by (simp add: single_flight_def leave_def processTrainingQueue_finally_def
             split: if_splits)
next
  case (predict y e la lo)
  then show ?case by (simp add: single_flight_def predictSafety_keeps)
next
  case (resume y e la lo)
  then show ?case by (simp add: single_flight_def predictSafety_complete_keeps)
next
  case (cleanup y now)
  then show ?case by (simp add: single_flight_def cleanupCache_keeps)
qed

section \<open>Range and fallback of a prediction\<close>

lemma tryPredict_fails_iff:
  "tryPredict e m lat lng = Inl err \<longleftrightarrow>
     findNearby e lat lng 0.5 = Inl err
     \<or> (\<exists>rs. findNearby e lat lng 0.5 = Inr rs \<and> rs \<noteq> []
              \<and> m (featureVector e lat lng rs) = Inl err)"
  by (auto simp: tryPredict_def inferSafety_def split: sum.splits)

text \<open>What of C3 holds: the fallback. With no model, with no report nearby, and when the
  store query or the inference throws, the result is the heuristic score with confidence
  0.5, and the function returns a prediction in every case. The range holds as well when
  the cached entries are in range and no nearby report is dated after the clock reading
  (\<open>predictSafety_ok\<close> above).\<close>

lemma predictSafety_falls_back:
  "(model s = None \<longrightarrow>
      fst (predictSafety e lat lng s)
        = \<lparr> score = getHeuristicSafety e lat lng, confidence = 0.5 \<rparr>)
   \<and> (\<forall>m err. model s = Some m \<and> cachedFresh e (cacheKey lat lng) s = None
          \<and> tryPredict e m lat lng = Inl err \<longrightarrow>
        fst (predictSafety e lat lng s)
          = \<lparr> score = getHeuristicSafety e lat lng, confidence = 0.5 \<rparr>)
   \<and> (\<forall>m. model s = Some m \<and> cachedFresh e (cacheKey lat lng) s = None
          \<and> findNearby e lat lng 0.5 = Inr [] \<longrightarrow>
        fst (predictSafety e lat lng s)
          = \<lparr> score = getHeuristicSafety e lat lng, confidence = 0.5 \<rparr>)"
  by (auto simp: predictSafety_def Let_def tryPredict_def)

lemma reachable_loaded_boot:
  "reachable (boot\<lparr> svc := new_service\<lparr> model := Some m \<rparr> \<rparr>)"
proof -
  have "reachable (boot\<lparr> svc := (svc boot)\<lparr> model := Some m, modelLoss := None,
          lastTrainedAt := None, lastSampleSize := 0 \<rparr> \<rparr>)"
    by (rule reachable.loaded [OF reachable.boot])
  then show ?thesis by (simp add: boot_def new_service_def)
qed

lemma confidence_above_one_for_future_reports:
  "confidenceFrom (example_penv store 0 2000) (replicate 10 future_report) = 1.3"
  by (simp add: confidenceFrom_def avgDaysSince_def days_between_def example_penv_def
        future_report_def example_report_def sum_list_replicate Let_def)

text \<open>A millisecond is enough: ten reports dated one millisecond after the clock reading
  give a confidence above 1.\<close>

lemma confidence_above_one_for_skewed_reports:
  "1 < confidenceFrom (example_penv store 0 2000) (replicate 10 skewed_report)"
  by (simp add: confidenceFrom_def avgDaysSince_def days_between_def example_penv_def
        skewed_report_def example_report_def sum_list_replicate Let_def)

lemma adjustedScore_future_reports:
  "adjustedScore (example_penv store 0 2000) (replicate 10 future_report) (1 / 2) = 0.1"
  by (simp add: adjustedScore_def example_penv_def future_report_def example_report_def Let_def)

text \<open>
  Claim C3, what the code does. The confidence is
  \<open>reportCountFactor * 0.7 + recencyFactor * 0.3\<close> with
  \<open>recencyFactor = Math.max(0.5, 1 - avgDaysSince / 30)\<close>, which the comment beside it
  gives as 0.5 to 1 but which nothing bounds from above. With a model loaded and the store
  returning ten nearby reports dated thirty days after the clock reading,
  \<open>predictSafety\<close> returns the confidence 1.3, outside [0, 1], and caches it.
\<close>

theorem future_reports_give_confidence_above_one:
  "fst (predictSafety (example_penv store_future 0 2000) 28.6 77.2 loaded_service)
     = \<lparr> score = 0.1, confidence = 1.3 \<rparr>
   \<and> predictionCache
         (snd (predictSafety (example_penv store_future 0 2000) 28.6 77.2 loaded_service))
         (cacheKey 28.6 77.2)
       = Some \<lparr> score = 0.1, confidence = 1.3, timestamp = 2000 \<rparr>"
proof -
  let ?e = "example_penv store_future 0 2000"
  have n: "findNearby ?e 28.6 77.2 0.5 = Inr (replicate 10 future_report)"
    by (simp add: example_penv_def store_future_def)
  have "inferSafety ?e example_model 28.6 77.2 (replicate 10 future_report)
      = Inr \<lparr> score = 0.1, confidence = 1.3 \<rparr>"
    by (simp add: inferSafety_def example_model_def adjustedScore_future_reports
          confidence_above_one_for_future_reports)
  with n have t: "tryPredict ?e example_model 28.6 77.2 = Inr \<lparr> score = 0.1, confidence = 1.3 \<rparr>"
    by (simp add: tryPredict_def)
  have w: "now_write ?e = 2000" by (simp add: example_penv_def)
  show ?thesis
    using t w
    by (simp add: predictSafety_def loaded_service_def new_service_def cachedFresh_def
          cacheSet_def)
qed

section \<open>The prediction cache\<close>



lemma cachedFresh_stale:
  assumes "predictionCache s k = Some c" and "timestamp c \<le> now_check e - cacheTTL"
  shows "cachedFresh e k s = None"
  using assms by (simp add: cachedFresh_def)

lemma predictSafety_leaves_entry:
  assumes "model s = Some m" and "predictSafety e lat lng s = (p, s1)"
  shows "\<exists>c. predictionCache s1 (cacheKey lat lng) = Some c
           \<and> p = \<lparr> score = score c, confidence = confidence c \<rparr>
           \<and> (cachedFresh e (cacheKey lat lng) s = None \<longrightarrow> timestamp c = now_write e)
           \<and> model s1 = Some m"
proof (cases "cachedFresh e (cacheKey lat lng) s")
  case (Some c)
  with assms cachedFresh_Some [OF Some] show ?thesis
    by (auto simp: predictSafety_def)
next
  case None
  with assms show ?thesis
    by (auto simp: predictSafety_def Let_def cacheSet_def split: sum.splits)
qed

lemma predictSafety_other_key:
  assumes "cacheKey lat' lng' \<noteq> k"
  shows "predictionCache (snd (predictSafety e lat' lng' s)) k = predictionCache s k"
  using assms
  by (simp add: predictSafety_def Let_def cacheSet_def split: option.splits sum.splits)

text \<open>The two parts of a call: what the completion writes and returns, and what the
  lookup returns.\<close>

lemma predictSafety_complete_entry:
  "predictionCache (snd (predictSafety_complete e lat lng s)) (cacheKey lat lng)
     = Some \<lparr> score = score (fst (predictSafety_complete e lat lng s)),
              confidence = confidence (fst (predictSafety_complete e lat lng s)),
              timestamp = now_write e \<rparr>"
  by (simp add: predictSafety_complete_def Let_def cacheSet_def)

lemma predictSafety_complete_result:
  assumes "model s = Some m"
  shows "fst (predictSafety_complete e lat lng s)
     = (case tryPredict e m lat lng of
          Inr p \<Rightarrow> p
        | Inl err \<Rightarrow> \<lparr> score = getHeuristicSafety e lat lng, confidence = 0.5 \<rparr>)"
  using assms by (simp add: predictSafety_complete_def Let_def split: sum.splits)

lemma predictSafety_complete_other_key:
  assumes "cacheKey la lo \<noteq> k"
  shows "predictionCache (snd (predictSafety_complete e la lo s)) k = predictionCache s k"
  using assms by (simp add: predictSafety_complete_def Let_def cacheSet_def)

lemma predictSafety_lookup_other_key:
  assumes "cacheKey la lo \<noteq> k" and "predictSafety_lookup e la lo s = Some (p, s')"
  shows "predictionCache s' k = predictionCache s k"
  using assms
  by (auto simp: predictSafety_lookup_def Let_def cacheSet_def split: option.splits)

lemma predictSafety_lookup_fresh:
  assumes "model s = Some m" and "predictionCache s (cacheKey lat lng) = Some c"
    and "now_check e - cacheTTL < timestamp c"
  shows "predictSafety_lookup e lat lng s
     = Some (\<lparr> score = score c, confidence = confidence c \<rparr>, s)"
  using assms by (simp add: predictSafety_lookup_def cachedFresh_def)

lemma predictSafety_lookup_stale:
  assumes "model s = Some m" and "predictionCache s (cacheKey lat lng) = Some c"
    and "timestamp c \<le> now_check e - cacheTTL"
  shows "predictSafety_lookup e lat lng s = None"
  using assms by (simp add: predictSafety_lookup_def cachedFresh_def)

lemma predictSafety_lookup_served:
  assumes "model s = Some m" and "predictSafety_lookup e lat lng s = Some (p, s1)"
  shows "s1 = s \<and> (\<exists>c. predictionCache s (cacheKey lat lng) = Some c
           \<and> p = \<lparr> score = score c, confidence = confidence c \<rparr>
           \<and> now_check e - cacheTTL < timestamp c)"
  using assms
  by (auto simp: predictSafety_lookup_def cachedFresh_def split: option.splits if_splits)

lemma predictSafety_lookup_unloaded:
  assumes "model s = None"
  shows "predictSafety_lookup e lat lng s
     = Some (\<lparr> score = getHeuristicSafety e lat lng, confidence = 0.5 \<rparr>,
             cacheSet e (cacheKey lat lng)
               \<lparr> score = getHeuristicSafety e lat lng, confidence = 0.5 \<rparr> s)"
  using assms by (simp add: predictSafety_lookup_def Let_def)

lemma cleanupCache_keeps_fresh:
  assumes "predictionCache s k = Some c" and "now - cacheTTL \<le> timestamp c"
  shows "predictionCache (cleanupCache now s) k = Some c"
  using assms by (simp add: cleanupCache_def)

lemma heuristic_at_origin:
  "getHeuristicSafety (example_penv store u t) 0 0 = max 0.1 (min 0.9 (0.75 + u * 0.1))"
  by (simp add: getHeuristicSafety_def example_penv_def)

lemma complete_at_origin:
  "fst (predictSafety_complete (example_penv store_empty u t) 0 0 loaded_service)
     = \<lparr> score = max 0.1 (min 0.9 (0.75 + u * 0.1)), confidence = 0.5 \<rparr>"
proof -
  have "tryPredict (example_penv store_empty u t) example_model 0 0
      = Inr \<lparr> score = getHeuristicSafety (example_penv store_empty u t) 0 0, confidence = 0.5 \<rparr>"
    by (simp add: tryPredict_def example_penv_def store_empty_def)
  then show ?thesis
    by (simp add: predictSafety_complete_def Let_def loaded_service_def heuristic_at_origin)
qed

text \<open>
  Claim C4, as amended. Once a model is loaded, for every quantized coordinate: a call of
  \<open>predictSafety\<close> that returns leaves in the cache, under that key, an entry with the
  score and confidence it returned: the entry it wrote on completing, stamped with the
  clock at the write, or the fresh entry it was served from. Any later call for a
  coordinate with the same key that finds this entry still under the key, whatever else
  the service has done in between, and whose clock is less than the TTL past the entry's
  timestamp, returns that same result at once and changes nothing. If the entry is as
  old as the TTL or older, the call does not return it: it waits for the store, and its
  result is computed from the store and the model. While no model is loaded, a call
  returns a new heuristic value without reading the cache, and writes it to the cache.
  A call for another key leaves the entry of this key as it is.
\<close>

theorem fresh_entry_is_returned_unchanged:
  assumes key: "cacheKey lat' lng' = cacheKey lat lng" and m2: "model s2 = Some m2"
  shows
    "(\<forall>p1 s1. predictSafety_complete e1 lat lng s = (p1, s1) \<longrightarrow>
        predictionCache s1 (cacheKey lat lng)
          = Some \<lparr> score = score p1, confidence = confidence p1, timestamp = now_write e1 \<rparr>
        \<and> (predictionCache s2 (cacheKey lat lng) = predictionCache s1 (cacheKey lat lng)
             \<and> now_check e2 - cacheTTL < now_write e1 \<longrightarrow>
           predictSafety_lookup e2 lat' lng' s2 = Some (p1, s2))
        \<and> (predictionCache s2 (cacheKey lat lng) = predictionCache s1 (cacheKey lat lng)
             \<and> now_write e1 \<le> now_check e2 - cacheTTL \<longrightarrow>
           predictSafety_lookup e2 lat' lng' s2 = None))
     \<and> (\<forall>m p1 s1. model s = Some m \<and> predictSafety_lookup e1 lat lng s = Some (p1, s1) \<longrightarrow>
          s1 = s
          \<and> (\<exists>c. predictionCache s1 (cacheKey lat lng) = Some c
                \<and> p1 = \<lparr> score = score c, confidence = confidence c \<rparr>
                \<and> (predictionCache s2 (cacheKey lat lng) = Some c
                     \<and> now_check e2 - cacheTTL < timestamp c \<longrightarrow>
                   predictSafety_lookup e2 lat' lng' s2 = Some (p1, s2))
                \<and> (predictionCache s2 (cacheKey lat lng) = Some c
                     \<and> timestamp c \<le> now_check e2 - cacheTTL \<longrightarrow>
                   predictSafety_lookup e2 lat' lng' s2 = None)))
     \<and> fst (predictSafety_complete e2 lat' lng' s2)
          = (case tryPredict e2 m2 lat' lng' of
               Inr p \<Rightarrow> p
             | Inl err \<Rightarrow> \<lparr> score = getHeuristicSafety e2 lat' lng', confidence = 0.5 \<rparr>)
     \<and> (model s = None \<longrightarrow>
          predictSafety_lookup e1 lat lng s
            = Some (\<lparr> score = getHeuristicSafety e1 lat lng, confidence = 0.5 \<rparr>,
                    cacheSet e1 (cacheKey lat lng)
                      \<lparr> score = getHeuristicSafety e1 lat lng, confidence = 0.5 \<rparr> s))
     \<and> (\<forall>la lo. cacheKey la lo \<noteq> cacheKey lat lng \<longrightarrow>
          predictionCache (snd (predictSafety_complete e1 la lo s)) (cacheKey lat lng)
            = predictionCache s (cacheKey lat lng)
          \<and> (\<forall>p s'. predictSafety_lookup e1 la lo s = Some (p, s') \<longrightarrow>
                predictionCache s' (cacheKey lat lng) = predictionCache s (cacheKey lat lng)))"
proof (intro conjI allI impI)
  fix p1 s1
  assume r: "predictSafety_complete e1 lat lng s = (p1, s1)"
  have p1: "p1 = fst (predictSafety_complete e1 lat lng s)"
    and s1: "s1 = snd (predictSafety_complete e1 lat lng s)"
    by (simp_all only: r fst_conv snd_conv)
  show entry: "predictionCache s1 (cacheKey lat lng)
      = Some \<lparr> score = score p1, confidence = confidence p1, timestamp = now_write e1 \<rparr>"
    unfolding p1 s1 by (rule predictSafety_complete_entry)
  {
    assume a: "predictionCache s2 (cacheKey lat lng) = predictionCache s1 (cacheKey lat lng)
        \<and> now_check e2 - cacheTTL < now_write e1"
    have c: "predictionCache s2 (cacheKey lat' lng')
        = Some \<lparr> score = score p1, confidence = confidence p1, timestamp = now_write e1 \<rparr>"
      by (simp only: key a [THEN conjunct1] entry)
    have "predictSafety_lookup e2 lat' lng' s2
        = Some (\<lparr> score = score \<lparr> score = score p1, confidence = confidence p1,
                                   timestamp = now_write e1 \<rparr>,
                  confidence = confidence \<lparr> score = score p1, confidence = confidence p1,
                                   timestamp = now_write e1 \<rparr> \<rparr>, s2)"
      by (rule predictSafety_lookup_fresh [OF m2 c]) (simp add: a [THEN conjunct2])
    then show "predictSafety_lookup e2 lat' lng' s2 = Some (p1, s2)" by simp
  }
  {
    assume a: "predictionCache s2 (cacheKey lat lng) = predictionCache s1 (cacheKey lat lng)
        \<and> now_write e1 \<le> now_check e2 - cacheTTL"
    have c: "predictionCache s2 (cacheKey lat' lng')
        = Some \<lparr> score = score p1, confidence = confidence p1, timestamp = now_write e1 \<rparr>"
      by (simp only: key a [THEN conjunct1] entry)
    show "predictSafety_lookup e2 lat' lng' s2 = None"
      by (rule predictSafety_lookup_stale [OF m2 c]) (simp add: a [THEN conjunct2])
  }
next
  fix m p1 s1
  assume a: "model s = Some m \<and> predictSafety_lookup e1 lat lng s = Some (p1, s1)"
  note served = predictSafety_lookup_served [OF a [THEN conjunct1] a [THEN conjunct2]]
  show "s1 = s" by (rule served [THEN conjunct1])
  from served [THEN conjunct2] obtain c where
    all: "predictionCache s (cacheKey lat lng) = Some c
        \<and> p1 = \<lparr> score = score c, confidence = confidence c \<rparr>
        \<and> now_check e1 - cacheTTL < timestamp c"
    by (rule exE)
  note c = all [THEN conjunct1]
  note p1 = all [THEN conjunct2, THEN conjunct1]
  show "\<exists>c. predictionCache s1 (cacheKey lat lng) = Some c
          \<and> p1 = \<lparr> score = score c, confidence = confidence c \<rparr>
          \<and> (predictionCache s2 (cacheKey lat lng) = Some c
               \<and> now_check e2 - cacheTTL < timestamp c \<longrightarrow>
             predictSafety_lookup e2 lat' lng' s2 = Some (p1, s2))
          \<and> (predictionCache s2 (cacheKey lat lng) = Some c
               \<and> timestamp c \<le> now_check e2 - cacheTTL \<longrightarrow>
             predictSafety_lookup e2 lat' lng' s2 = None)"
  proof (intro exI [of _ c] conjI impI)
    show "predictionCache s1 (cacheKey lat lng) = Some c"
      by (simp only: served [THEN conjunct1] c)
    show "p1 = \<lparr> score = score c, confidence = confidence c \<rparr>" by (rule p1)
    show "predictSafety_lookup e2 lat' lng' s2 = Some (p1, s2)"
      if b: "predictionCache s2 (cacheKey lat lng) = Some c
           \<and> now_check e2 - cacheTTL < timestamp c"
    proof -
      have c2: "predictionCache s2 (cacheKey lat' lng') = Some c"
        by (simp only: key b [THEN conjunct1])
      show ?thesis
        unfolding p1 by (rule predictSafety_lookup_fresh [OF m2 c2 b [THEN conjunct2]])
    qed
    show "predictSafety_lookup e2 lat' lng' s2 = None"
      if b: "predictionCache s2 (cacheKey lat lng) = Some c
           \<and> timestamp c \<le> now_check e2 - cacheTTL"
    proof -
      have c2: "predictionCache s2 (cacheKey lat' lng') = Some c"
        by (simp only: key b [THEN conjunct1])
      show ?thesis
        by (rule predictSafety_lookup_stale [OF m2 c2 b [THEN conjunct2]])
    qed
  qed
next
  show "fst (predictSafety_complete e2 lat' lng' s2)
      = (case tryPredict e2 m2 lat' lng' of
           Inr p \<Rightarrow> p
         | Inl err \<Rightarrow> \<lparr> score = getHeuristicSafety e2 lat' lng', confidence = 0.5 \<rparr>)"
    by (rule predictSafety_complete_result [OF m2])
next
  assume "model s = None"
  then show "predictSafety_lookup e1 lat lng s
      = Some (\<lparr> score = getHeuristicSafety e1 lat lng, confidence = 0.5 \<rparr>,
              cacheSet e1 (cacheKey lat lng)
                \<lparr> score = getHeuristicSafety e1 lat lng, confidence = 0.5 \<rparr> s)"
    by (rule predictSafety_lookup_unloaded)
next
  fix la lo
  assume k: "cacheKey la lo \<noteq> cacheKey lat lng"
  show "predictionCache (snd (predictSafety_complete e1 la lo s)) (cacheKey lat lng)
      = predictionCache s (cacheKey lat lng)"
    by (rule predictSafety_complete_other_key [OF k])
  fix p s'
  assume "predictSafety_lookup e1 la lo s = Some (p, s')"
  then show "predictionCache s' (cacheKey lat lng) = predictionCache s (cacheKey lat lng)"
    by (rule predictSafety_lookup_other_key [OF k])
qed

theorem fresh_entry_is_returned_unchanged_witness:
  "predictSafety_lookup (example_penv store_empty (1 / 2) 2000) 0 0
       (snd (predictSafety_complete (example_penv store_empty 0 1000) 0 0 loaded_service))
     = Some (\<lparr> score = 0.75, confidence = 0.5 \<rparr>,
             snd (predictSafety_complete (example_penv store_empty 0 1000) 0 0 loaded_service))
   \<and> predictSafety_lookup (example_penv store_empty (1 / 2) 301000) 0 0
       (snd (predictSafety_complete (example_penv store_empty 0 1000) 0 0 loaded_service))
     = None
   \<and> predictSafety_lookup (example_penv store_empty 0 1000) 0 0 new_service
     = Some (\<lparr> score = 0.75, confidence = 0.5 \<rparr>,
             cacheSet (example_penv store_empty 0 1000) (cacheKey 0 0)
               \<lparr> score = 0.75, confidence = 0.5 \<rparr> new_service)"
proof -
  let ?e1 = "example_penv store_empty 0 1000"
  let ?e2 = "example_penv store_empty (1 / 2) 2000"
  let ?e3 = "example_penv store_empty (1 / 2) 301000"
  let ?p1 = "fst (predictSafety_complete ?e1 0 0 loaded_service)"
  let ?s1 = "snd (predictSafety_complete ?e1 0 0 loaded_service)"
  have r: "predictSafety_complete ?e1 0 0 loaded_service = (?p1, ?s1)"
    by (rule prod.collapse [symmetric])
  have m1: "model ?s1 = Some example_model"
    by (simp add: predictSafety_complete_def Let_def cacheSet_def loaded_service_def)
  have p1: "?p1 = \<lparr> score = 0.75, confidence = 0.5 \<rparr>"
    by (simp add: complete_at_origin)
  have fresh: "now_check ?e2 - cacheTTL < now_write ?e1"
    by (simp add: example_penv_def cacheTTL_def)
  have stale: "now_write ?e1 \<le> now_check ?e3 - cacheTTL"
    by (simp add: example_penv_def cacheTTL_def)
  have none: "model new_service = None" by (simp add: new_service_def)
  note first2 = fresh_entry_is_returned_unchanged [OF refl m1, of ?e1 0 0 loaded_service ?e2,
      THEN conjunct1, THEN spec, THEN spec, THEN mp, OF r]
  note first3 = fresh_entry_is_returned_unchanged [OF refl m1, of ?e1 0 0 loaded_service ?e3,
      THEN conjunct1, THEN spec, THEN spec, THEN mp, OF r]
  note unloaded = fresh_entry_is_returned_unchanged [OF refl m1, of ?e1 0 0 new_service ?e2,
      THEN conjunct2, THEN conjunct2, THEN conjunct2, THEN conjunct1, THEN mp, OF none]
  have a: "predictSafety_lookup ?e2 0 0 ?s1 = Some (?p1, ?s1)"
    by (rule first2 [THEN conjunct2, THEN conjunct1, THEN mp]) (simp only: fresh simp_thms)
  have b: "predictSafety_lookup ?e3 0 0 ?s1 = None"
    by (rule first3 [THEN conjunct2, THEN conjunct2, THEN mp]) (simp only: stale simp_thms)
  have h: "getHeuristicSafety ?e1 0 0 = 0.75" by (simp add: heuristic_at_origin)
  show ?thesis
  proof (intro conjI)
    show "predictSafety_lookup ?e2 0 0 ?s1 = Some (\<lparr> score = 0.75, confidence = 0.5 \<rparr>, ?s1)"
      using a by (simp only: p1)
    show "predictSafety_lookup ?e3 0 0 ?s1 = None" by (rule b)
    show "predictSafety_lookup ?e1 0 0 new_service
      = Some (\<lparr> score = 0.75, confidence = 0.5 \<rparr>,
             cacheSet ?e1 (cacheKey 0 0) \<lparr> score = 0.75, confidence = 0.5 \<rparr> new_service)"
      using unloaded by (simp only: h)
  qed
qed

text \<open>Two calls for one key that overlap: both miss, both wait, both write. The second
  to complete overwrites the entry of the first, and a third call is served the second
  result, not the first.\<close>

lemma overlapping_calls_both_write:
  "predictSafety_lookup (example_penv store_empty 0 1000) 0 0 loaded_service = None
   \<and> predictSafety_lookup (example_penv store_empty (1 / 2) 1001) 0 0 loaded_service = None
   \<and> fst (predictSafety_complete (example_penv store_empty 0 1000) 0 0 loaded_service)
       = \<lparr> score = 0.75, confidence = 0.5 \<rparr>
   \<and> predictSafety_complete (example_penv store_empty (1 / 2) 1001) 0 0
         (snd (predictSafety_complete (example_penv store_empty 0 1000) 0 0 loaded_service))
       = (\<lparr> score = 0.8, confidence = 0.5 \<rparr>,
          loaded_service\<lparr> predictionCache :=
            [cacheKey 0 0 \<mapsto> \<lparr> score = 0.8, confidence = 0.5, timestamp = 1001 \<rparr>] \<rparr>)
   \<and> predictSafety_lookup (example_penv store_empty 0 2000) 0 0
         (loaded_service\<lparr> predictionCache :=
            [cacheKey 0 0 \<mapsto> \<lparr> score = 0.8, confidence = 0.5, timestamp = 1001 \<rparr>] \<rparr>)
       = Some (\<lparr> score = 0.8, confidence = 0.5 \<rparr>,
               loaded_service\<lparr> predictionCache :=
                 [cacheKey 0 0 \<mapsto> \<lparr> score = 0.8, confidence = 0.5, timestamp = 1001 \<rparr>] \<rparr>)"
proof -
  have "tryPredict (example_penv store_empty u t) example_model 0 0
      = Inr \<lparr> score = getHeuristicSafety (example_penv store_empty u t) 0 0,
              confidence = 0.5 \<rparr>" for u t
    by (simp add: tryPredict_def example_penv_def store_empty_def)
  then have t: "tryPredict (example_penv store_empty u t) example_model 0 0
      = Inr \<lparr> score = max 0.1 (min 0.9 (0.75 + u * 0.1)), confidence = 0.5 \<rparr>" for u t
    by (simp only: heuristic_at_origin)
  have w: "now_write (example_penv store_empty u t) = t" for u t
    by (simp add: example_penv_def)
  have c: "now_check (example_penv store_empty u t) = t" for u t
    by (simp add: example_penv_def)
  show ?thesis
    by (simp add: predictSafety_lookup_def predictSafety_complete_def Let_def t w c
          cachedFresh_def cacheSet_def loaded_service_def new_service_def cacheTTL_def)
qed

text \<open>Against C4 as stated: while no model is loaded, \<open>predictSafety\<close> never reads the
  cache. Two calls for (0, 0) one second apart, with the random draws 0 and 0.5, return
  the scores 0.75 and 0.8.\<close>

theorem unloaded_model_recomputes_within_ttl:
  "fst (predictSafety (example_penv store_empty 0 1000) 0 0 new_service)
     = \<lparr> score = 0.75, confidence = 0.5 \<rparr>
   \<and> fst (predictSafety (example_penv store_empty (1 / 2) 2000) 0 0
          (snd (predictSafety (example_penv store_empty 0 1000) 0 0 new_service)))
     = \<lparr> score = 0.8, confidence = 0.5 \<rparr>"
  by (simp add: predictSafety_def Let_def cacheSet_def new_service_def heuristic_at_origin)

section \<open>Scheduling a training pass\<close>


lemma cached_service_entry:
  "predictionCache cached_service (cacheKey 0 0)
     = Some \<lparr> score = 0.75, confidence = 0.5, timestamp = 1000 \<rparr>"
  by (simp add: cached_service_def predictSafety_def loaded_service_def new_service_def
        cachedFresh_def tryPredict_def store_empty_def example_penv_def cacheSet_def
        getHeuristicSafety_def)



lemma training_service_eq:
  "training_service = loaded_service\<lparr> trainingQueue := [], isTraining := True,
                                        predictionCache := Map.empty \<rparr>"
  by (simp add: training_service_def scheduleTraining_eq loaded_service_def new_service_def)




text \<open>
  Claim C6, as amended. In every state the service can reach at most one training pass
  is in flight, and \<open>isTraining\<close> is set exactly while one is; the queue is empty and
  no timer is pending. An invocation of \<open>scheduleTraining\<close> while a pass is in flight
  neither enqueues a trigger nor begins a pass: it leaves the service and the number
  of passes as they are.
\<close>

theorem training_is_single_flight:
  assumes "reachable y"
  shows "activePasses y \<le> 1
       \<and> (isTraining (svc y) \<longleftrightarrow> activePasses y = 1)
       \<and> trainingQueue (svc y) = []
       \<and> pendingTimers y = 0
       \<and> (isTraining (svc y) \<longrightarrow>
             scheduleTraining now (svc y) = (svc y, False)
             \<and> enter (scheduleTraining now (svc y)) y = y)"
proof -
  from assms have sf: "single_flight y" by (rule reachable_single_flight)
  have "enter (svc y, False) y = y" by (simp add: enter_def)
  with sf show ?thesis
    by (simp add: single_flight_def scheduleTraining_eq)
qed

theorem training_is_single_flight_witness:
  "activePasses (enter (scheduleTraining 1000 (svc boot)) boot) = 1
   \<and> isTraining (svc (enter (scheduleTraining 1000 (svc boot)) boot))
   \<and> scheduleTraining 2000 (svc (enter (scheduleTraining 1000 (svc boot)) boot))
       = (svc (enter (scheduleTraining 1000 (svc boot)) boot), False)"
proof -
  let ?y = "enter (scheduleTraining 1000 (svc boot)) boot"
  have r: "reachable ?y" by (rule reachable.schedule [OF reachable.boot])
  have t: "isTraining (svc ?y)"
    by (simp add: enter_def scheduleTraining_eq boot_def new_service_def)
  from training_is_single_flight [OF r, of 2000] t show ?thesis by simp
qed

text \<open>Against C6 as stated: a trigger submitted while a pass is in flight is not
  enqueued. The queue stays empty, no pass begins, and the \<open>finally\<close> block of the pass
  in flight finds nothing to reschedule.\<close>

theorem submission_while_training_is_dropped:
  "isTraining training_service
   \<and> trainingQueue (fst (scheduleTraining 2000 training_service)) = []
   \<and> snd (scheduleTraining 2000 training_service) = False
   \<and> snd (processTrainingQueue_finally (fst (scheduleTraining 2000 training_service))) = False"
  by (simp add: training_service_eq scheduleTraining_eq processTrainingQueue_finally_def)

section \<open>Distances along a meridian\<close>

text \<open>With equal longitudes the haversine formula gives the arc of the meridian between
  the two latitudes: zero for one point, more than 2 km for points a degree apart.\<close>

lemma atan2_sin_cos:
  fixes t :: real
  assumes "\<bar>t\<bar> \<le> pi / 2"
  shows "atan2 \<bar>sin t\<bar> (cos t) = \<bar>t\<bar>"
proof (cases "\<bar>t\<bar> < pi / 2")
  case True
  then have c: "0 < cos t" by (intro cos_gt_zero_pi) auto
  have s: "\<bar>sin t\<bar> = sin \<bar>t\<bar>"
  proof (cases "0 \<le> t")
    case True
    with assms have "0 \<le> sin t" by (intro sin_ge_zero) (auto simp: abs_if)
    with True show ?thesis by simp
  next
    case False
    with assms have "0 \<le> sin (- t)" by (intro sin_ge_zero) (auto simp: abs_if)
    with False show ?thesis by (simp add: abs_if)
  qed
  have "cos t = cos \<bar>t\<bar>" by (simp add: abs_if)
  with s have "\<bar>sin t\<bar> / cos t = tan \<bar>t\<bar>" by (simp add: tan_def)
  moreover have "arctan (tan \<bar>t\<bar>) = \<bar>t\<bar>"
    using True by (intro arctan_tan) auto
  ultimately show ?thesis using c by (simp add: atan2_def)
next
  case False
  with assms have e: "\<bar>t\<bar> = pi / 2" by simp
  then consider "t = pi / 2" | "t = - (pi / 2)" by (auto simp: abs_if split: if_splits)
  then have "cos t = 0 \<and> \<bar>sin t\<bar> = 1"
  proof cases
    case 1
    then show ?thesis by (simp only: cos_pi_half sin_pi_half) simp
  next
    case 2
    then show ?thesis by (simp only: cos_minus sin_minus cos_pi_half sin_pi_half) simp
  qed
  with e show ?thesis by (simp add: atan2_def)
qed

lemma calculateDistance_meridian:
  assumes "\<bar>lat2 - lat1\<bar> \<le> 180"
  shows "calculateDistance lat1 lon lat2 lon = 6371 * (\<bar>lat2 - lat1\<bar> * (pi / 180))"
proof -
  define t where "t = (lat2 - lat1) * (pi / 180) / 2"
  have tr: "\<bar>t\<bar> \<le> pi / 2"
  proof -
    have "\<bar>t\<bar> = \<bar>lat2 - lat1\<bar> * (pi / 180) / 2"
      by (simp add: t_def abs_mult)
    also have "\<dots> \<le> 180 * (pi / 180) / 2"
      using assms by (intro divide_right_mono mult_right_mono) auto
    finally show ?thesis by simp
  qed
  have c0: "0 \<le> cos t" using tr by (intro cos_ge_zero) (auto simp: abs_if split: if_splits)
  have s1: "sqrt (sin t * sin t) = \<bar>sin t\<bar>" by simp
  have "1 - sin t * sin t = cos t * cos t"
    using sin_cos_squared_add [of t] by (simp add: power2_eq_square algebra_simps)
  then have s2: "sqrt (1 - sin t * sin t) = cos t" using c0 by simp
  have "calculateDistance lat1 lon lat2 lon = 6371 * (2 * atan2 \<bar>sin t\<bar> (cos t))"
    unfolding calculateDistance_def Let_def t_def [symmetric]
    by (simp add: s1 s2)
  also have "\<dots> = 6371 * (2 * \<bar>t\<bar>)" by (simp only: atan2_sin_cos [OF tr])
  also have "2 * \<bar>t\<bar> = \<bar>lat2 - lat1\<bar> * (pi / 180)"
    by (simp add: t_def abs_mult)
  finally show ?thesis .
qed

lemma calculateDistance_same_point: "calculateDistance la lo la lo = 0"
  using calculateDistance_meridian [of la la lo] by simp

lemma calculateDistance_degrees_apart:
  assumes "1 \<le> \<bar>lat2 - lat1\<bar>" and "\<bar>lat2 - lat1\<bar> \<le> 180"
  shows "\<not> calculateDistance lat1 lon lat2 lon \<le> 2"
proof -
  have "2 \<le> pi" by (rule pi_ge_two)
  then have "2 < 6371 * (1 * (pi / 180))" by simp
  also have "\<dots> \<le> 6371 * (\<bar>lat2 - lat1\<bar> * (pi / 180))"
    using assms(1) by (intro mult_left_mono mult_right_mono) auto
  finally show ?thesis by (simp add: calculateDistance_meridian [OF assms(2)])
qed

section \<open>Hotspots\<close>

text \<open>The loop admits a centre only with at least 3 reports within 2 km, and the
  selection that follows only picks among the admitted centres.\<close>

lemma hotspotLoop_qualify:
  assumes "hotspotLoop he reports todo seen k preds s = (preds', s')"
    and "list_all (hotspot_qualifies reports) preds"
    and "set todo \<subseteq> set reports"
  shows "list_all (hotspot_qualifies reports) preds'"
  using assms
proof (induction todo arbitrary: seen k preds s)
  case Nil
  then show ?case by simp
next
  case (Cons r todo)
  let ?key = "(toFixed 3 (r_lat r), toFixed 3 (r_lng r))"
  from Cons.prems(3) have sub: "set todo \<subseteq> set reports" and rin: "r \<in> set reports" by auto
  show ?case
  proof (cases "?key \<in> set seen")
    case True
    with Cons.prems(1) have "hotspotLoop he reports todo seen k preds s = (preds', s')"
      by (simp add: Let_def)
    from Cons.IH [OF this Cons.prems(2) sub] show ?thesis .
  next
    case False
    show ?thesis
    proof (cases "length (nearbyWithin2km (r_lat r) (r_lng r) reports) \<ge> 3")
      case few: False
      with False Cons.prems(1)
      have "hotspotLoop he reports todo (?key # seen) k preds s = (preds', s')"
        by (simp add: Let_def)
      from Cons.IH [OF this Cons.prems(2) sub] show ?thesis .
    next
      case enough: True
      obtain p s1 where ps: "predictSafety (predictEnv he k) (r_lat r) (r_lng r) s = (p, s1)"
        by (cases "predictSafety (predictEnv he k) (r_lat r) (r_lng r) s")
      let ?h = "\<lparr> location = \<lparr> pt_lat = r_lat r, pt_lng = r_lng r \<rparr>,
                  hsSafetyScore = score p, hsConfidence = confidence p,
                  category = categoryOf (score p),
                  reportCount = length (nearbyWithin2km (r_lat r) (r_lng r) reports) \<rparr>"
      from enough False Cons.prems(1) ps
      have run: "hotspotLoop he reports todo (?key # seen) (k + 1) (preds @ [?h]) s1 = (preds', s')"
        by (simp add: Let_def)
      have "hotspot_qualifies reports ?h"
        using enough rin by (auto simp: hotspot_qualifies_def list_ex_iff)
      with Cons.prems(2) have "list_all (hotspot_qualifies reports) (preds @ [?h])" by simp
      from Cons.IH [OF run this sub] show ?thesis .
    qed
  qed
qed

lemma hotspotLoop_sparse:
  assumes "list_all (\<lambda>r. length (nearbyWithin2km (r_lat r) (r_lng r) reports) < 3) todo"
  shows "hotspotLoop he reports todo seen k preds s = (preds, s)"
  using assms
  by (induction todo arbitrary: seen) (simp_all add: Let_def)

lemma set_uniqueByKey: "set (uniqueByKey seenKeys hs) \<subseteq> set hs"
  by (induction hs arbitrary: seenKeys) (auto simp: Let_def)

lemma set_selectHotspots: "set (selectHotspots preds) \<subseteq> set preds"
proof -
  have "set (take 5 (sort_key (\<lambda>h. - hsSafetyScore h) preds)) \<subseteq> set preds"
    using set_take_subset [of 5 "sort_key (\<lambda>h. - hsSafetyScore h) preds"] by simp
  moreover have "set (rev (drop (length (sort_key (\<lambda>h. - hsSafetyScore h) preds) - 5)
                       (sort_key (\<lambda>h. - hsSafetyScore h) preds))) \<subseteq> set preds"
    using set_drop_subset [of _ "sort_key (\<lambda>h. - hsSafetyScore h) preds"] by simp
  moreover have "set (take 5 (sort_key (\<lambda>h. - int (reportCount h)) preds)) \<subseteq> set preds"
    using set_take_subset [of 5 "sort_key (\<lambda>h. - int (reportCount h)) preds"] by simp
  ultimately show ?thesis
    unfolding selectHotspots_def Let_def
    using set_uniqueByKey by fastforce
qed

lemma selectHotspots_Nil: "selectHotspots [] = []"
  by (simp add: selectHotspots_def)

lemma list_all_subset: "list_all P xs \<Longrightarrow> set ys \<subseteq> set xs \<Longrightarrow> list_all P ys"
  by (auto simp: list_all_iff)

text \<open>
  Claim C9. For a run of \<open>identifyHotspots\<close> on the reports the store returns: when no
  report has at least 3 reports within 2 km, the run yields no hotspot entry (a run that
  goes through installs the empty set; a run stopped at its gate, with fewer than 20
  reports or no model, installs nothing and leaves the set as it was); and every entry
  of the set a run installs sits at a report's coordinates with at least 3 reports within
  2 km true distance, counted in its \<open>reportCount\<close>.
\<close>

theorem identifyHotspots_needs_three_neighbours:
  assumes "recentReports he = Inr reports"
  shows "(sparse reports \<longrightarrow>
            predictedHotspots (identifyHotspots he s)
              = (if length reports < 20 \<or> model s = None then predictedHotspots s else []))
       \<and> (20 \<le> length reports \<and> model s \<noteq> None \<longrightarrow>
            list_all (hotspot_qualifies reports) (predictedHotspots (identifyHotspots he s)))
       \<and> list_all (\<lambda>h. h \<in> set (predictedHotspots s) \<or> hotspot_qualifies reports h)
            (predictedHotspots (identifyHotspots he s))"
proof (cases "length reports < 20 \<or> model s = None")
  case True
  with assms have "identifyHotspots he s = s" by (auto simp: identifyHotspots_def)
  with True show ?thesis by (auto simp: list_all_iff)
next
  case False
  obtain preds s' where loop: "hotspotLoop he reports reports [] 0 [] s = (preds, s')"
    by (cases "hotspotLoop he reports reports [] 0 [] s")
  with assms False
  have run: "predictedHotspots (identifyHotspots he s) = selectHotspots preds"
    by (auto simp: identifyHotspots_def)
  from hotspotLoop_qualify [OF loop] have "list_all (hotspot_qualifies reports) preds" by simp
  then have q: "list_all (hotspot_qualifies reports) (selectHotspots preds)"
    using set_selectHotspots by (rule list_all_subset)
  have e: "selectHotspots preds = []" if "sparse reports"
  proof -
    from that have "hotspotLoop he reports reports [] 0 [] s = ([], s)"
      unfolding sparse_def by (rule hotspotLoop_sparse)
    with loop have "preds = []" by simp
    then show ?thesis by (simp add: selectHotspots_Nil)
  qed
  from q have q': "list_all (\<lambda>h. h \<in> set (predictedHotspots s) \<or> hotspot_qualifies reports h)
      (selectHotspots preds)"
    by (auto simp: list_all_iff)
  from False e q q' show ?thesis unfolding run by auto
qed

lemma count_upt_eq: "length (filter (\<lambda>j. j = i) [0..<n]) = (if i < n then 1 else 0)"
  by (induction n) auto

lemma nearby_spread:
  assumes "i < 20"
  shows "length (nearbyWithin2km (real i) (r_lng example_report) spread_reports) = 1"
proof -
  have same: "(calculateDistance (real i) lo (real j) lo \<le> 2) = (j = i)"
    if "j < 20" for j lo
  proof (cases "j = i")
    case True
    then show ?thesis by (simp add: calculateDistance_same_point)
  next
    case False
    with assms that have "1 \<le> \<bar>real j - real i\<bar>" "\<bar>real j - real i\<bar> \<le> 180"
      by (auto simp: abs_if)
    from calculateDistance_degrees_apart [OF this] False show ?thesis by simp
  qed
  have "filter (\<lambda>j. calculateDistance (real i) (r_lng example_report) (real j)
                     (r_lng example_report) \<le> 2) [0..<20]
      = filter (\<lambda>j. j = i) [0..<20]"
    by (rule filter_cong) (auto simp: same)
  then show ?thesis
    using assms
    by (simp add: nearbyWithin2km_def spread_reports_def filter_map comp_def count_upt_eq)
qed

lemma sparse_spread_reports: "sparse spread_reports"
proof -
  have "length (nearbyWithin2km (r_lat r) (r_lng r) spread_reports) < 3"
    if "r \<in> set spread_reports" for r
  proof -
    from that obtain i where "i < 20" and "r = example_report\<lparr> r_lat := real i \<rparr>"
      by (auto simp: spread_reports_def)
    with nearby_spread [of i] show ?thesis by simp
  qed
  then show ?thesis by (simp add: sparse_def list_all_iff)
qed

theorem identifyHotspots_needs_three_neighbours_witness:
  "sparse spread_reports
   \<and> predictedHotspots
         (identifyHotspots example_henv (loaded_service\<lparr> predictedHotspots := [old_hotspot] \<rparr>))
       = []"
proof -
  let ?s = "loaded_service\<lparr> predictedHotspots := [old_hotspot] \<rparr>"
  have r: "recentReports example_henv = Inr spread_reports"
    by (simp add: example_henv_def)
  have g: "\<not> (length spread_reports < 20 \<or> model ?s = None)"
    by (simp add: spread_reports_def loaded_service_def)
  from identifyHotspots_needs_three_neighbours [OF r, of ?s, THEN conjunct1, THEN mp,
         OF sparse_spread_reports] g
  have "predictedHotspots (identifyHotspots example_henv ?s) = []" by simp
  with sparse_spread_reports show ?thesis by simp
qed

lemma hotspotLoop_seen:
  assumes "list_all (\<lambda>r. (toFixed 3 (r_lat r), toFixed 3 (r_lng r)) \<in> set seen) todo"
  shows "hotspotLoop he reports todo seen k preds s = (preds, s)"
  using assms by (induction todo) (simp_all add: Let_def)

lemma selectHotspots_single: "selectHotspots [h] = [h]"
  by (simp add: selectHotspots_def Let_def)

lemma nearby_cluster:
  "nearbyWithin2km (r_lat example_report) (r_lng example_report) cluster_reports
     = cluster_reports"
  by (simp add: nearbyWithin2km_def cluster_reports_def calculateDistance_same_point)

lemma cluster_yields_one_hotspot:
  "map reportCount (predictedHotspots (identifyHotspots cluster_henv loaded_service)) = [20]
   \<and> map location (predictedHotspots (identifyHotspots cluster_henv loaded_service))
       = [\<lparr> pt_lat = 28.6, pt_lng = 77.2 \<rparr>]"
proof -
  let ?e = "example_penv store_empty (1 / 2) 2000"
  let ?r = example_report
  obtain p s1 where ps: "predictSafety ?e (r_lat ?r) (r_lng ?r) loaded_service = (p, s1)"
    by (cases "predictSafety ?e (r_lat ?r) (r_lng ?r) loaded_service")
  let ?h = "\<lparr> location = \<lparr> pt_lat = r_lat ?r, pt_lng = r_lng ?r \<rparr>,
              hsSafetyScore = score p, hsConfidence = confidence p,
              category = categoryOf (score p), reportCount = length cluster_reports \<rparr>"
  have rest: "hotspotLoop cluster_henv cluster_reports (replicate 19 ?r)
                [(toFixed 3 (r_lat ?r), toFixed 3 (r_lng ?r))] 1 [?h] s1 = ([?h], s1)"
    by (rule hotspotLoop_seen) (simp add: list_all_iff)
  have split: "cluster_reports = ?r # replicate 19 ?r"
    by (simp add: cluster_reports_def numeral_eq_Suc)
  have len: "length cluster_reports = 20" by (simp add: cluster_reports_def)
  have "hotspotLoop cluster_henv cluster_reports (?r # replicate 19 ?r) [] 0 [] loaded_service
      = ([?h], s1)"
    using ps rest by (simp add: Let_def nearby_cluster len cluster_henv_def)
  then have "hotspotLoop cluster_henv cluster_reports cluster_reports [] 0 [] loaded_service
      = ([?h], s1)"
    using split by simp
  then have "predictedHotspots (identifyHotspots cluster_henv loaded_service) = [?h]"
    by (simp add: identifyHotspots_def cluster_henv_def len loaded_service_def
          selectHotspots_single)
  then show ?thesis by (simp add: len example_report_def)
qed

section \<open>Route scoring\<close>

text \<open>The inner loop never fails while the store answers; its total is a number while
  every prediction is rejected and turns into text with the first prediction that
  resolves.\<close>

lemma length_generateRoutePoints:
  "length (generateRoutePoints rnd lat lng count distanceKm) = count"
  by (simp add: generateRoutePoints_def)

lemma length_getMidPoints: "length (getMidPoints lat1 lng1 lat2 lng2 count) = count"
  by (simp add: getMidPoints_def)

lemma scoreMidPoints_answers:
  assumes "store_answers ce"
  shows "\<exists>total n. scoreMidPoints ce k mps t i = Inr (total, n)"
proof (induction mps arbitrary: k t i)
  case Nil
  show ?case by simp
next
  case (Cons mp mps)
  from assms obtain found where "findNearbyCall ce k (pt_lat mp) (pt_lng mp) 0.2 = Inr found"
    unfolding store_answers_def by meson
  then show ?case using Cons.IH by (simp add: Let_def)
qed

lemma scoreMidPoints_all_fail:
  assumes "store_answers ce" and "predictions_fail ce"
  shows "\<exists>n. scoreMidPoints ce k mps (JNum t) i = Inr (JNum (t + 0.5 * real (length mps)), n)"
proof (induction mps arbitrary: k t i)
  case Nil
  show ?case by simp
next
  case (Cons mp mps)
  from assms(1) obtain found where f: "findNearbyCall ce k (pt_lat mp) (pt_lng mp) 0.2 = Inr found"
    unfolding store_answers_def by meson
  from assms(2) obtain err where p: "predictSafetyCall ce k (pt_lat mp) (pt_lng mp) = Inl err"
    unfolding predictions_fail_def by meson
  from Cons.IH [of "k + 1" "t + 0.5"] obtain n where
    "scoreMidPoints ce (k + 1) mps (JNum (t + 0.5))
        (i + length (filter (\<lambda>r. r_type r \<in> set unsafe_types)
                       (case found of None \<Rightarrow> [] | Some rs \<Rightarrow> rs)))
       = Inr (JNum (t + 0.5 + 0.5 * real (length mps)), n)"
    by meson
  with f p show ?case by (simp add: Let_def algebra_simps)
qed

lemma js_plus_text [simp]: "js_plus JObjText v = JObjText"
  by (cases v) simp_all

lemma js_plus_obj [simp]: "js_plus v (JObj p) = JObjText"
  by (cases v) simp_all

lemma scoreMidPoints_text:
  assumes "store_answers ce" and "predictions_resolve ce"
  shows "\<exists>n. scoreMidPoints ce k mps JObjText i = Inr (JObjText, n)"
proof (induction mps arbitrary: k i)
  case Nil
  show ?case by simp
next
  case (Cons mp mps)
  from assms(1) obtain found where f: "findNearbyCall ce k (pt_lat mp) (pt_lng mp) 0.2 = Inr found"
    unfolding store_answers_def by meson
  show ?case using f Cons.IH by (simp add: Let_def)
qed

lemma scoreMidPoints_all_resolve:
  assumes "store_answers ce" and "predictions_resolve ce" and "mps \<noteq> []"
  shows "\<exists>n. scoreMidPoints ce k mps (JNum t) i = Inr (JObjText, n)"
proof (cases mps)
  case Nil
  with assms(3) show ?thesis by simp
next
  case (Cons mp rest)
  from assms(1) obtain found where f: "findNearbyCall ce k (pt_lat mp) (pt_lng mp) 0.2 = Inr found"
    unfolding store_answers_def by meson
  from assms(2) obtain p where p: "predictSafetyCall ce k (pt_lat mp) (pt_lng mp) = Inr p"
    unfolding predictions_resolve_def by meson
  from scoreMidPoints_text [OF assms(1,2)] f p Cons show ?thesis
    by (simp add: Let_def)
qed

lemma scoreRoutePoints_legs:
  assumes "store_answers ce"
  shows "\<exists>new. scoreRoutePoints ce lat lng k pts routes = Inr (routes @ new)
           \<and> map endp new = pts
           \<and> list_all (\<lambda>r. start r = \<lparr> pt_lat = lat, pt_lng = lng \<rparr>) new
           \<and> (predictions_fail ce \<longrightarrow> list_all (\<lambda>r. safetyScore r = JNum 0.5) new)
           \<and> (predictions_resolve ce \<longrightarrow> list_all (\<lambda>r. safetyScore r = JNaN) new)"
proof (induction pts arbitrary: k routes)
  case Nil
  show ?case by simp
next
  case (Cons pnt pts)
  let ?mps = "getMidPoints lat lng (pt_lat pnt) (pt_lng pnt) 3"
  from scoreMidPoints_answers [OF assms] obtain total n where
    leg: "scoreMidPoints ce k ?mps (JNum 0) 0 = Inr (total, n)"
    by meson
  let ?r = "\<lparr> start = \<lparr> pt_lat = lat, pt_lng = lng \<rparr>, endp = pnt,
              safetyScore = js_over_length total (length ?mps), incidents = n \<rparr>"
  have fail: "safetyScore ?r = JNum 0.5" if "predictions_fail ce"
  proof -
    from scoreMidPoints_all_fail [OF assms that, of k ?mps 0 0] leg
    have "total = JNum (0.5 * 3)" by (simp add: length_getMidPoints)
    then show ?thesis by (simp add: length_getMidPoints)
  qed
  have resolve: "safetyScore ?r = JNaN" if "predictions_resolve ce"
  proof -
    have "?mps \<noteq> []" by (simp add: getMidPoints_def upt_rec)
    from scoreMidPoints_all_resolve [OF assms that this, of k 0 0] leg
    have "total = JObjText" by simp
    then show ?thesis by simp
  qed
  from Cons.IH [of "k + length ?mps" "routes @ [?r]"] obtain new where
    all: "scoreRoutePoints ce lat lng (k + length ?mps) pts (routes @ [?r])
            = Inr ((routes @ [?r]) @ new)
      \<and> map endp new = pts
      \<and> list_all (\<lambda>r. start r = \<lparr> pt_lat = lat, pt_lng = lng \<rparr>) new
      \<and> (predictions_fail ce \<longrightarrow> list_all (\<lambda>r. safetyScore r = JNum 0.5) new)
      \<and> (predictions_resolve ce \<longrightarrow> list_all (\<lambda>r. safetyScore r = JNaN) new)"
    by (rule exE)
  note new = all [THEN conjunct1] all [THEN conjunct2, THEN conjunct1]
    all [THEN conjunct2, THEN conjunct2, THEN conjunct1]
    all [THEN conjunct2, THEN conjunct2, THEN conjunct2, THEN conjunct1]
    all [THEN conjunct2, THEN conjunct2, THEN conjunct2, THEN conjunct2]
  show ?case
  proof (intro exI [of _ "?r # new"] conjI impI)
    show "scoreRoutePoints ce lat lng k (pnt # pts) routes = Inr (routes @ ?r # new)"
      using leg new(1) by (simp add: Let_def)
    show "map endp (?r # new) = pnt # pts" using new(2) by simp
    show "list_all (\<lambda>r. start r = \<lparr> pt_lat = lat, pt_lng = lng \<rparr>) (?r # new)"
      using new(3) by simp
    show "list_all (\<lambda>r. safetyScore r = JNum 0.5) (?r # new)" if "predictions_fail ce"
      using fail [OF that] new(4) that by simp
    show "list_all (\<lambda>r. safetyScore r = JNaN) (?r # new)" if "predictions_resolve ce"
      using resolve [OF that] new(5) that by simp
  qed
qed

lemma map_const_replicate: "list_all (\<lambda>x. f x = c) xs \<Longrightarrow> map f xs = replicate (length xs) c"
  by (induction xs) simp_all

lemma getSafeRoutes_legs:
  assumes "lat \<noteq> 0" and "lng \<noteq> 0" and "store_answers ce"
  shows "\<exists>routes. getSafeRoutes ce (Location (Some lat) (Some lng)) = (200, RoutesBody routes)
           \<and> map endp routes = generateRoutePoints (random ce) lat lng 8 1
           \<and> list_all (\<lambda>r. start r = \<lparr> pt_lat = lat, pt_lng = lng \<rparr>) routes
           \<and> (predictions_fail ce \<longrightarrow> list_all (\<lambda>r. safetyScore r = JNum 0.5) routes)
           \<and> (predictions_resolve ce \<longrightarrow> list_all (\<lambda>r. safetyScore r = JNaN) routes)"
proof -
  from scoreRoutePoints_legs [OF assms(3), of lat lng 0
         "generateRoutePoints (random ce) lat lng 8 1" "[]"]
  obtain new where
    all: "scoreRoutePoints ce lat lng 0 (generateRoutePoints (random ce) lat lng 8 1) []
            = Inr ([] @ new)
      \<and> map endp new = generateRoutePoints (random ce) lat lng 8 1
      \<and> list_all (\<lambda>r. start r = \<lparr> pt_lat = lat, pt_lng = lng \<rparr>) new
      \<and> (predictions_fail ce \<longrightarrow> list_all (\<lambda>r. safetyScore r = JNum 0.5) new)
      \<and> (predictions_resolve ce \<longrightarrow> list_all (\<lambda>r. safetyScore r = JNaN) new)"
    by (rule exE)
  note new = all [THEN conjunct1] all [THEN conjunct2]
  have "getSafeRoutes ce (Location (Some lat) (Some lng)) = (200, RoutesBody new)"
    using assms(1,2) new(1) by (simp add: getSafeRoutes_def Let_def)
  with new(2) show ?thesis by (intro exI [of _ new] conjI) simp_all
qed

lemma scoreRoutePoints_store_down:
  assumes "\<And>k la lo. findNearbyCall ce k la lo 0.2 = Inl err" and "pts \<noteq> []"
  shows "scoreRoutePoints ce lat lng k pts routes = Inl err"
proof (cases pts)
  case Nil
  with assms(2) show ?thesis by simp
next
  case (Cons pnt rest)
  have "scoreMidPoints ce k (getMidPoints lat lng (pt_lat pnt) (pt_lng pnt) 3) (JNum 0) 0 = Inl err"
    using assms(1) by (simp add: getMidPoints_def upt_rec Let_def)
  with Cons show ?thesis by (simp add: Let_def)
qed

lemma getSafeRoutes_store_down:
  assumes "\<And>k la lo. findNearbyCall ce k la lo 0.2 = Inl (Error msg)"
    and "lat \<noteq> 0" and "lng \<noteq> 0"
  shows "getSafeRoutes ce (Location (Some lat) (Some lng)) = (500, ServerError msg)"
proof -
  have "length (generateRoutePoints (random ce) lat lng 8 1) = 8"
    by (rule length_generateRoutePoints)
  then have "generateRoutePoints (random ce) lat lng 8 1 \<noteq> []" by auto
  from scoreRoutePoints_store_down [OF assms(1) this]
  show ?thesis using assms(2,3) by (simp add: getSafeRoutes_def Let_def)
qed

text \<open>The two loops call by call: what a leg and a request give when the store answers,
  and where they stop when it throws.\<close>

lemma scoreMidPoints_run:
  assumes "\<And>i. i < length mps \<Longrightarrow> callAnswers ce (k + i) (mps ! i)"
  shows "\<exists>total. scoreMidPoints ce k mps t n
            = Inr (total, n + (\<Sum>i<length mps. unsafeNearby ce (k + i) (mps ! i)))
          \<and> ((\<forall>i<length mps. callRejected ce (k + i) (mps ! i)) \<longrightarrow>
               (\<forall>a. t = JNum a \<longrightarrow> total = JNum (a + 0.5 * real (length mps))))"
  using assms
proof (induction mps arbitrary: k t n)
  case Nil
  show ?case by simp
next
  case (Cons mp mps)
  from Cons.prems [of 0] obtain found where
    f: "findNearbyCall ce k (pt_lat mp) (pt_lng mp) 0.2 = Inr found"
    by (cases "findNearbyCall ce k (pt_lat mp) (pt_lng mp) 0.2") (simp_all add: callAnswers_def)
  have here: "length (filter (\<lambda>r. r_type r \<in> set unsafe_types)
                (case found of None \<Rightarrow> [] | Some rs \<Rightarrow> rs)) = unsafeNearby ce k mp"
    using f by (simp add: unsafeNearby_def split: option.splits)
  have tl: "callAnswers ce (k + 1 + i) (mps ! i)" if "i < length mps" for i
    using Cons.prems [of "Suc i"] that by simp
  let ?sc = "case predictSafetyCall ce k (pt_lat mp) (pt_lng mp) of
               Inl err \<Rightarrow> JNum 0.5 | Inr p \<Rightarrow> JObj p"
  from Cons.IH [of "k + 1" "js_plus t ?sc" "n + unsafeNearby ce k mp", OF tl]
  obtain total where
    all: "scoreMidPoints ce (k + 1) mps (js_plus t ?sc) (n + unsafeNearby ce k mp)
            = Inr (total, n + unsafeNearby ce k mp
                          + (\<Sum>i<length mps. unsafeNearby ce (k + 1 + i) (mps ! i)))
          \<and> ((\<forall>i<length mps. callRejected ce (k + 1 + i) (mps ! i)) \<longrightarrow>
               (\<forall>a. js_plus t ?sc = JNum a \<longrightarrow> total = JNum (a + 0.5 * real (length mps))))"
    by (rule exE)
  have shift: "(\<Sum>i<Suc (length mps). unsafeNearby ce (k + i) ((mp # mps) ! i))
      = unsafeNearby ce k mp + (\<Sum>i<length mps. unsafeNearby ce (k + 1 + i) (mps ! i))"
    by (simp only: sum.lessThan_Suc_shift) simp
  have run: "scoreMidPoints ce k (mp # mps) t n
      = Inr (total, n + (\<Sum>i<length (mp # mps). unsafeNearby ce (k + i) ((mp # mps) ! i)))"
    using f here shift all [THEN conjunct1] by (simp add: Let_def add.assoc)
  have rej: "total = JNum (a + 0.5 * real (length (mp # mps)))"
    if r: "\<forall>i<length (mp # mps). callRejected ce (k + i) ((mp # mps) ! i)" and t: "t = JNum a"
    for a
  proof -
    from r have "callRejected ce k mp" by auto
    then have sc: "?sc = JNum 0.5"
      by (cases "predictSafetyCall ce k (pt_lat mp) (pt_lng mp)") (simp_all add: callRejected_def)
    have "\<forall>i<length mps. callRejected ce (k + 1 + i) (mps ! i)"
    proof (intro allI impI)
      fix i assume "i < length mps"
      with r have "callRejected ce (k + Suc i) ((mp # mps) ! Suc i)" by auto
      then show "callRejected ce (k + 1 + i) (mps ! i)" by simp
    qed
    with all [THEN conjunct2] have imp: "\<forall>b. js_plus t ?sc = JNum b \<longrightarrow>
        total = JNum (b + 0.5 * real (length mps))" by (rule mp)
    have "js_plus t ?sc = JNum (a + 0.5)" using t sc by simp
    with imp [THEN spec, of "a + 0.5"]
    have "total = JNum (a + 0.5 + 0.5 * real (length mps))" by (rule mp)
    then show ?thesis by (simp add: algebra_simps)
  qed
  show ?case
    using run rej by (intro exI [of _ total] conjI impI allI) simp_all
qed

lemma scoreMidPoints_store_fails:
  assumes "i < length mps"
    and "\<And>i'. i' < i \<Longrightarrow> callAnswers ce (k + i') (mps ! i')"
    and "callThrows ce (k + i) (mps ! i) err"
  shows "scoreMidPoints ce k mps t n = Inl err"
  using assms
proof (induction mps arbitrary: k t n i)
  case Nil
  then show ?case by simp
next
  case (Cons mp mps)
  show ?case
  proof (cases i)
    case 0
    with Cons.prems(3) show ?thesis by (simp add: callThrows_def Let_def)
  next
    case (Suc i0)
    from Cons.prems(2) [of 0] Suc obtain found where
      f: "findNearbyCall ce k (pt_lat mp) (pt_lng mp) 0.2 = Inr found"
      by (cases "findNearbyCall ce k (pt_lat mp) (pt_lng mp) 0.2") (simp_all add: callAnswers_def)
    have a: "i0 < length mps" using Cons.prems(1) Suc by simp
    have b: "callAnswers ce (k + 1 + i') (mps ! i')" if "i' < i0" for i'
      using Cons.prems(2) [of "Suc i'"] that Suc by simp
    have c: "callThrows ce (k + 1 + i0) (mps ! i0) err"
      using Cons.prems(3) Suc by simp
    from Cons.IH [OF a b c] f show ?thesis by (simp add: Let_def)
  qed
qed


lemma scoreRoutePoints_run:
  assumes "\<And>j i. j < length pts \<Longrightarrow> i < 3 \<Longrightarrow>
     callAnswers ce (k + 3 * j + i)
       (getMidPoints lat lng (pt_lat (pts ! j)) (pt_lng (pts ! j)) 3 ! i)"
  shows "\<exists>new. scoreRoutePoints ce lat lng k pts routes = Inr (routes @ new)
     \<and> map endp new = pts
     \<and> list_all (\<lambda>r. start r = \<lparr> pt_lat = lat, pt_lng = lng \<rparr>) new
     \<and> (\<forall>j<length pts.
          ((\<forall>i<3. callRejected ce (k + 3 * j + i)
                     (getMidPoints lat lng (pt_lat (pts ! j)) (pt_lng (pts ! j)) 3 ! i))
             \<longrightarrow> safetyScore (new ! j) = JNum 0.5)
          \<and> incidents (new ! j)
              = (\<Sum>i<3. unsafeNearby ce (k + 3 * j + i)
                   (getMidPoints lat lng (pt_lat (pts ! j)) (pt_lng (pts ! j)) 3 ! i)))"
  using assms
proof (induction pts arbitrary: k routes)
  case Nil
  show ?case by simp
next
  case (Cons pnt pts)
  let ?mps = "getMidPoints lat lng (pt_lat pnt) (pt_lng pnt) 3"
  have len: "length ?mps = 3" by (rule length_getMidPoints)
  have leg0: "callAnswers ce (k + i) (?mps ! i)" if "i < length ?mps" for i
    using Cons.prems [of 0 i] that len by simp
  from scoreMidPoints_run [of ?mps ce k "JNum 0" 0, OF leg0] obtain total where
    tot: "scoreMidPoints ce k ?mps (JNum 0) 0
            = Inr (total, 0 + (\<Sum>i<length ?mps. unsafeNearby ce (k + i) (?mps ! i)))
          \<and> ((\<forall>i<length ?mps. callRejected ce (k + i) (?mps ! i)) \<longrightarrow>
               (\<forall>a. JNum 0 = JNum a \<longrightarrow> total = JNum (a + 0.5 * real (length ?mps))))"
    by (rule exE)
  let ?n = "\<Sum>i<3. unsafeNearby ce (k + i) (?mps ! i)"
  let ?r = "\<lparr> start = \<lparr> pt_lat = lat, pt_lng = lng \<rparr>, endp = pnt,
              safetyScore = js_over_length total 3, incidents = ?n \<rparr>"
  have leg: "scoreMidPoints ce k ?mps (JNum 0) 0 = Inr (total, ?n)"
    using tot [THEN conjunct1] len by simp
  have half: "safetyScore ?r = JNum 0.5" if "\<forall>i<3. callRejected ce (k + i) (?mps ! i)"
  proof -
    from that len have "\<forall>i<length ?mps. callRejected ce (k + i) (?mps ! i)" by simp
    with tot [THEN conjunct2]
    have imp: "\<forall>a. JNum 0 = JNum a \<longrightarrow> total = JNum (a + 0.5 * real (length ?mps))"
      by (rule mp)
    have "total = JNum (0 + 0.5 * real (length ?mps))"
      by (rule imp [THEN spec, of 0, THEN mp]) (rule refl)
    with len show ?thesis by simp
  qed
  have rest: "callAnswers ce (k + 3 + 3 * j + i)
       (getMidPoints lat lng (pt_lat (pts ! j)) (pt_lng (pts ! j)) 3 ! i)"
    if "j < length pts" "i < 3" for j i
    using Cons.prems [of "Suc j" i] that by (simp add: algebra_simps)
  from Cons.IH [of "k + 3" "routes @ [?r]", OF rest] obtain new where
    all: "scoreRoutePoints ce lat lng (k + 3) pts (routes @ [?r]) = Inr ((routes @ [?r]) @ new)
     \<and> map endp new = pts
     \<and> list_all (\<lambda>r. start r = \<lparr> pt_lat = lat, pt_lng = lng \<rparr>) new
     \<and> (\<forall>j<length pts.
          ((\<forall>i<3. callRejected ce (k + 3 + 3 * j + i)
                     (getMidPoints lat lng (pt_lat (pts ! j)) (pt_lng (pts ! j)) 3 ! i))
             \<longrightarrow> safetyScore (new ! j) = JNum 0.5)
          \<and> incidents (new ! j)
              = (\<Sum>i<3. unsafeNearby ce (k + 3 + 3 * j + i)
                   (getMidPoints lat lng (pt_lat (pts ! j)) (pt_lng (pts ! j)) 3 ! i)))"
    by (rule exE)
  note run' = all [THEN conjunct1]
  note ends = all [THEN conjunct2, THEN conjunct1]
  note starts = all [THEN conjunct2, THEN conjunct2, THEN conjunct1]
  note legs = all [THEN conjunct2, THEN conjunct2, THEN conjunct2, rule_format]
  show ?case
  proof (intro exI [of _ "?r # new"] conjI allI impI)
    show "scoreRoutePoints ce lat lng k (pnt # pts) routes = Inr (routes @ ?r # new)"
      using leg run' len by (simp add: Let_def)
    show "map endp (?r # new) = pnt # pts" using ends by simp
    show "list_all (\<lambda>r. start r = \<lparr> pt_lat = lat, pt_lng = lng \<rparr>) (?r # new)"
      using starts by simp
  next
    fix j assume j: "j < length (pnt # pts)"
    assume rej: "\<forall>i<3. callRejected ce (k + 3 * j + i)
       (getMidPoints lat lng (pt_lat ((pnt # pts) ! j)) (pt_lng ((pnt # pts) ! j)) 3 ! i)"
    show "safetyScore ((?r # new) ! j) = JNum 0.5"
    proof (cases j)
      case 0
      with rej have "\<forall>i<3. callRejected ce (k + i) (?mps ! i)" by simp
      from half [OF this] 0 show ?thesis by simp
    next
      case (Suc j0)
      with j have j0: "j0 < length pts" by simp
      from rej Suc have "\<forall>i<3. callRejected ce (k + 3 + 3 * j0 + i)
          (getMidPoints lat lng (pt_lat (pts ! j0)) (pt_lng (pts ! j0)) 3 ! i)"
        by (simp add: algebra_simps)
      with legs [OF j0, THEN conjunct1] have "safetyScore (new ! j0) = JNum 0.5" by (rule mp)
      with Suc show ?thesis by simp
    qed
  next
    fix j assume j: "j < length (pnt # pts)"
    show "incidents ((?r # new) ! j)
        = (\<Sum>i<3. unsafeNearby ce (k + 3 * j + i)
             (getMidPoints lat lng (pt_lat ((pnt # pts) ! j)) (pt_lng ((pnt # pts) ! j)) 3 ! i))"
    proof (cases j)
      case 0
      then show ?thesis by simp
    next
      case (Suc j0)
      with j have j0: "j0 < length pts" by simp
      from legs [OF j0, THEN conjunct2] Suc show ?thesis by (simp add: algebra_simps)
    qed
  qed
qed

lemma scoreRoutePoints_store_fails:
  assumes "j < length pts" and "i < 3"
    and "\<And>j' i'. j' < length pts \<Longrightarrow> i' < 3 \<Longrightarrow> callsBefore j' i' j i \<Longrightarrow>
           callAnswers ce (k + 3 * j' + i')
             (getMidPoints lat lng (pt_lat (pts ! j')) (pt_lng (pts ! j')) 3 ! i')"
    and "callThrows ce (k + 3 * j + i)
           (getMidPoints lat lng (pt_lat (pts ! j)) (pt_lng (pts ! j)) 3 ! i) err"
  shows "scoreRoutePoints ce lat lng k pts routes = Inl err"
  using assms
proof (induction pts arbitrary: k routes j)
  case Nil
  then show ?case by simp
next
  case (Cons pnt pts)
  let ?mps = "getMidPoints lat lng (pt_lat pnt) (pt_lng pnt) 3"
  have len: "length ?mps = 3" by (rule length_getMidPoints)
  show ?case
  proof (cases j)
    case 0
    have a: "i < length ?mps" using Cons.prems(2) len by simp
    have b: "callAnswers ce (k + i') (?mps ! i')" if "i' < i" for i'
      using Cons.prems(3) [of 0 i'] that Cons.prems(2) 0 by (simp add: callsBefore_def)
    have c: "callThrows ce (k + i) (?mps ! i) err" using Cons.prems(4) 0 by simp
    from scoreMidPoints_store_fails [OF a b c] show ?thesis by (simp add: Let_def)
  next
    case (Suc j0)
    have leg0: "callAnswers ce (k + i') (?mps ! i')" if "i' < length ?mps" for i'
      using Cons.prems(3) [of 0 i'] that len Suc by (simp add: callsBefore_def)
    have "\<exists>total. scoreMidPoints ce k ?mps (JNum 0) 0
            = Inr (total, 0 + (\<Sum>i<length ?mps. unsafeNearby ce (k + i) (?mps ! i)))
          \<and> ((\<forall>i<length ?mps. callRejected ce (k + i) (?mps ! i)) \<longrightarrow>
               (\<forall>a. JNum 0 = JNum a \<longrightarrow> total = JNum (a + 0.5 * real (length ?mps))))"
      by (rule scoreMidPoints_run) (rule leg0)
    then obtain total where
      leg: "scoreMidPoints ce k ?mps (JNum 0) 0
            = Inr (total, 0 + (\<Sum>i<length ?mps. unsafeNearby ce (k + i) (?mps ! i)))"
      by (elim exE conjE)
    have a: "j0 < length pts" using Cons.prems(1) Suc by simp
    have b: "callAnswers ce (k + 3 + 3 * j' + i')
               (getMidPoints lat lng (pt_lat (pts ! j')) (pt_lng (pts ! j')) 3 ! i')"
      if "j' < length pts" "i' < 3" "callsBefore j' i' j0 i" for j' i'
      using Cons.prems(3) [of "Suc j'" i'] that Suc
      by (simp add: callsBefore_def algebra_simps)
    have c: "callThrows ce (k + 3 + 3 * j0 + i)
               (getMidPoints lat lng (pt_lat (pts ! j0)) (pt_lng (pts ! j0)) 3 ! i) err"
      using Cons.prems(4) Suc by (simp add: algebra_simps)
    from Cons.IH [where k = "k + 3" and j = j0, OF a Cons.prems(2) b c] leg len show ?thesis
      by (simp add: Let_def)
  qed
qed

lemma example_store_answers: "store_answers (example_cenv pr nearby_none)"
  by (simp add: store_answers_def example_cenv_def nearby_none_def)

lemma example_predictions_fail: "predictions_fail (example_cenv predict_down fn)"
  by (simp add: predictions_fail_def example_cenv_def predict_down_def)

lemma example_predictions_resolve: "predictions_resolve (example_cenv predict_safe fn)"
  by (simp add: predictions_resolve_def example_cenv_def predict_safe_def)

lemma getSafeRoutes_all_answer:
  assumes "lat \<noteq> 0" and "lng \<noteq> 0"
  shows "(\<forall>j<8. \<forall>i<3. callAnswers ce (3 * j + i) (legMidPoints ce lat lng j ! i)) \<longrightarrow>
           (\<exists>routes.
              getSafeRoutes ce (Location (Some lat) (Some lng)) = (200, RoutesBody routes)
              \<and> length routes = 8
              \<and> map endp routes = generateRoutePoints (random ce) lat lng 8 1
              \<and> list_all (\<lambda>r. start r = \<lparr> pt_lat = lat, pt_lng = lng \<rparr>) routes
              \<and> (\<forall>j<8.
                   (\<forall>i<3. callRejected ce (3 * j + i) (legMidPoints ce lat lng j ! i))
                     \<longrightarrow> safetyScore (routes ! j) = JNum 0.5))"
proof (intro impI)
  let ?pts = "generateRoutePoints (random ce) lat lng 8 1"
  have len: "length ?pts = 8" by (rule length_generateRoutePoints)
  assume ans: "\<forall>j<8. \<forall>i<3. callAnswers ce (3 * j + i) (legMidPoints ce lat lng j ! i)"
  have a: "callAnswers ce (0 + 3 * j + i)
             (getMidPoints lat lng (pt_lat (?pts ! j)) (pt_lng (?pts ! j)) 3 ! i)"
    if "j < length ?pts" "i < 3" for j i
    using ans that len by (simp add: legMidPoints_def Let_def)
  from scoreRoutePoints_run [of ?pts ce 0 lat lng "[]", OF a] obtain new where
    all: "scoreRoutePoints ce lat lng 0 ?pts [] = Inr ([] @ new)
     \<and> map endp new = ?pts
     \<and> list_all (\<lambda>r. start r = \<lparr> pt_lat = lat, pt_lng = lng \<rparr>) new
     \<and> (\<forall>j<length ?pts.
          ((\<forall>i<3. callRejected ce (0 + 3 * j + i)
                     (getMidPoints lat lng (pt_lat (?pts ! j)) (pt_lng (?pts ! j)) 3 ! i))
             \<longrightarrow> safetyScore (new ! j) = JNum 0.5)
          \<and> incidents (new ! j)
              = (\<Sum>i<3. unsafeNearby ce (0 + 3 * j + i)
                   (getMidPoints lat lng (pt_lat (?pts ! j)) (pt_lng (?pts ! j)) 3 ! i)))"
    by (rule exE)
  note run = all [THEN conjunct1]
  note ends = all [THEN conjunct2, THEN conjunct1]
  note starts = all [THEN conjunct2, THEN conjunct2, THEN conjunct1]
  note legs = all [THEN conjunct2, THEN conjunct2, THEN conjunct2, rule_format]
  have resp: "getSafeRoutes ce (Location (Some lat) (Some lng)) = (200, RoutesBody new)"
    using assms run by (simp add: getSafeRoutes_def Let_def)
  have "length (map endp new) = 8" by (simp only: ends len)
  then have l8: "length new = 8" by simp
  have half: "safetyScore (new ! j) = JNum 0.5"
    if "j < 8" and "\<forall>i<3. callRejected ce (3 * j + i) (legMidPoints ce lat lng j ! i)" for j
  proof -
    from that(1) len have j: "j < length ?pts" by simp
    from that(2) have "\<forall>i<3. callRejected ce (0 + 3 * j + i)
        (getMidPoints lat lng (pt_lat (?pts ! j)) (pt_lng (?pts ! j)) 3 ! i)"
      by (simp add: legMidPoints_def Let_def)
    with legs [OF j, THEN conjunct1] show ?thesis by (rule mp)
  qed
  show "\<exists>routes.
          getSafeRoutes ce (Location (Some lat) (Some lng)) = (200, RoutesBody routes)
          \<and> length routes = 8
          \<and> map endp routes = generateRoutePoints (random ce) lat lng 8 1
          \<and> list_all (\<lambda>r. start r = \<lparr> pt_lat = lat, pt_lng = lng \<rparr>) routes
          \<and> (\<forall>j<8.
               (\<forall>i<3. callRejected ce (3 * j + i) (legMidPoints ce lat lng j ! i))
                 \<longrightarrow> safetyScore (routes ! j) = JNum 0.5)"
    using resp l8 ends starts half by (intro exI [of _ new] conjI allI impI) simp_all
qed

lemma getSafeRoutes_first_throw:
  assumes "lat \<noteq> 0" and "lng \<noteq> 0"
  shows "\<forall>j<8. \<forall>i<3. \<forall>msg.
           (\<forall>j'<8. \<forall>i'<3. callsBefore j' i' j i \<longrightarrow>
               callAnswers ce (3 * j' + i') (legMidPoints ce lat lng j' ! i'))
           \<and> callThrows ce (3 * j + i) (legMidPoints ce lat lng j ! i) (Error msg)
           \<longrightarrow> getSafeRoutes ce (Location (Some lat) (Some lng)) = (500, ServerError msg)"
proof (intro impI allI)
  fix j i :: nat and msg :: string
  let ?pts = "generateRoutePoints (random ce) lat lng 8 1"
  have len: "length ?pts = 8" by (rule length_generateRoutePoints)
  assume j: "j < 8" and i: "i < 3"
  assume h: "(\<forall>j'<8. \<forall>i'<3. callsBefore j' i' j i \<longrightarrow>
                 callAnswers ce (3 * j' + i') (legMidPoints ce lat lng j' ! i'))
             \<and> callThrows ce (3 * j + i) (legMidPoints ce lat lng j ! i) (Error msg)"
  have a: "j < length ?pts" using j len by simp
  have b: "callAnswers ce (0 + 3 * j' + i')
             (getMidPoints lat lng (pt_lat (?pts ! j')) (pt_lng (?pts ! j')) 3 ! i')"
    if "j' < length ?pts" "i' < 3" "callsBefore j' i' j i" for j' i'
    using h [THEN conjunct1] that len by (simp add: legMidPoints_def Let_def)
  have c: "callThrows ce (0 + 3 * j + i)
             (getMidPoints lat lng (pt_lat (?pts ! j)) (pt_lng (?pts ! j)) 3 ! i) (Error msg)"
    using h [THEN conjunct2] by (simp add: legMidPoints_def Let_def)
  from scoreRoutePoints_store_fails [OF a i b c, of "[]"]
  show "getSafeRoutes ce (Location (Some lat) (Some lng)) = (500, ServerError msg)"
    using assms by (simp add: getSafeRoutes_def Let_def)
qed

text \<open>Some call throws exactly when not every call answers, and then there is a first
  one that does.\<close>

lemma getSafeRoutes_some_throw:
  assumes nz: "lat \<noteq> 0" "lng \<noteq> 0"
    and some: "\<not> (\<forall>j<8. \<forall>i<3. callAnswers ce (3 * j + i) (legMidPoints ce lat lng j ! i))"
  shows "fst (getSafeRoutes ce (Location (Some lat) (Some lng))) = 500"
proof -
  define P where "P k = (k < 24 \<and> \<not> callAnswers ce k (legMidPoints ce lat lng (k div 3) ! (k mod 3)))"
    for k :: nat
  from some obtain j i where ji: "j < 8" "i < 3"
    "\<not> callAnswers ce (3 * j + i) (legMidPoints ce lat lng j ! i)"
    by blast
  from ji have "P (3 * j + i)" by (simp add: P_def)
  then have ex: "\<exists>k. P k" ..
  define k0 where "k0 = (LEAST k. P k)"
  have Pk0: "P k0" unfolding k0_def using ex by (rule LeastI_ex)
  have least: "\<not> P k" if "k < k0" for k
    using that unfolding k0_def by (rule not_less_Least)
  define j0 i0 where "j0 = k0 div 3" and "i0 = k0 mod 3"
  have k0: "3 * j0 + i0 = k0" by (simp add: j0_def i0_def)
  from Pk0 have "k0 < 24" by (simp add: P_def)
  then have j0: "j0 < 8" unfolding j0_def by (simp add: less_mult_imp_div_less)
  have i0: "i0 < 3" by (simp add: i0_def)
  have before: "\<forall>j'<8. \<forall>i'<3. callsBefore j' i' j0 i0 \<longrightarrow>
      callAnswers ce (3 * j' + i') (legMidPoints ce lat lng j' ! i')"
  proof (intro allI impI)
    fix j' i' :: nat
    assume a: "j' < 8" "i' < 3" "callsBefore j' i' j0 i0"
    from a(2,3) i0 have "3 * j' + i' < 3 * j0 + i0"
      by (auto simp: callsBefore_def)
    then have "\<not> P (3 * j' + i')" using least k0 by simp
    moreover have "3 * j' + i' < 24" using a(1,2) by simp
    moreover have "(3 * j' + i') div 3 = j'" "(3 * j' + i') mod 3 = i'" using a(2) by simp_all
    ultimately show "callAnswers ce (3 * j' + i') (legMidPoints ce lat lng j' ! i')"
      by (simp add: P_def)
  qed
  from Pk0 have "\<not> callAnswers ce (3 * j0 + i0) (legMidPoints ce lat lng j0 ! i0)"
    by (simp add: P_def k0 j0_def [symmetric] i0_def [symmetric])
  then obtain err where
    "findNearbyCall ce (3 * j0 + i0) (pt_lat (legMidPoints ce lat lng j0 ! i0))
       (pt_lng (legMidPoints ce lat lng j0 ! i0)) 0.2 = Inl err"
    by (auto simp: callAnswers_def isl_def)
  moreover obtain msg where "err = Error msg" by (cases err)
  ultimately have throws:
    "callThrows ce (3 * j0 + i0) (legMidPoints ce lat lng j0 ! i0) (Error msg)"
    by (simp add: callThrows_def)
  have "getSafeRoutes ce (Location (Some lat) (Some lng)) = (500, ServerError msg)"
    by (rule getSafeRoutes_first_throw [OF nz, rule_format, OF j0 i0 conjI [OF before throws]])
  then show ?thesis by simp
qed

text \<open>
  Claim C1, as amended. For every origin with non-zero latitude and longitude: when
  every \<open>findNearby\<close> call of the request answers, \<open>getSafeRoutes\<close> responds 200 with
  exactly 8 route records, one per generated route point and each starting at the
  origin, whether the predictions resolve or are rejected; and each leg whose three
  predictions are all rejected has the score 0.5, whatever happens on the other legs.
  When a \<open>findNearby\<close> call throws, the calls before it having answered, the request is
  answered with status 500 and the message of that error, and carries no route record;
  so the status is 500 whenever some \<open>findNearby\<close> call of the request does not answer.
\<close>

theorem getSafeRoutes_routes_or_500:
  assumes "lat \<noteq> 0" and "lng \<noteq> 0"
  shows "((\<forall>j<8. \<forall>i<3. callAnswers ce (3 * j + i) (legMidPoints ce lat lng j ! i)) \<longrightarrow>
            (\<exists>routes.
               getSafeRoutes ce (Location (Some lat) (Some lng)) = (200, RoutesBody routes)
               \<and> length routes = 8
               \<and> map endp routes = generateRoutePoints (random ce) lat lng 8 1
               \<and> list_all (\<lambda>r. start r = \<lparr> pt_lat = lat, pt_lng = lng \<rparr>) routes
               \<and> (\<forall>j<8.
                    (\<forall>i<3. callRejected ce (3 * j + i) (legMidPoints ce lat lng j ! i))
                      \<longrightarrow> safetyScore (routes ! j) = JNum 0.5)))
       \<and> (\<forall>j<8. \<forall>i<3. \<forall>msg.
             (\<forall>j'<8. \<forall>i'<3. callsBefore j' i' j i \<longrightarrow>
                 callAnswers ce (3 * j' + i') (legMidPoints ce lat lng j' ! i'))
             \<and> callThrows ce (3 * j + i) (legMidPoints ce lat lng j ! i) (Error msg)
             \<longrightarrow> getSafeRoutes ce (Location (Some lat) (Some lng)) = (500, ServerError msg))
       \<and> (\<not> (\<forall>j<8. \<forall>i<3. callAnswers ce (3 * j + i) (legMidPoints ce lat lng j ! i)) \<longrightarrow>
            fst (getSafeRoutes ce (Location (Some lat) (Some lng))) = 500)"
proof (intro conjI)
  show "(\<forall>j<8. \<forall>i<3. callAnswers ce (3 * j + i) (legMidPoints ce lat lng j ! i)) \<longrightarrow>
           (\<exists>routes.
              getSafeRoutes ce (Location (Some lat) (Some lng)) = (200, RoutesBody routes)
              \<and> length routes = 8
              \<and> map endp routes = generateRoutePoints (random ce) lat lng 8 1
              \<and> list_all (\<lambda>r. start r = \<lparr> pt_lat = lat, pt_lng = lng \<rparr>) routes
              \<and> (\<forall>j<8.
                   (\<forall>i<3. callRejected ce (3 * j + i) (legMidPoints ce lat lng j ! i))
                     \<longrightarrow> safetyScore (routes ! j) = JNum 0.5))"
    by (rule getSafeRoutes_all_answer [OF assms])
  show "\<forall>j<8. \<forall>i<3. \<forall>msg.
           (\<forall>j'<8. \<forall>i'<3. callsBefore j' i' j i \<longrightarrow>
               callAnswers ce (3 * j' + i') (legMidPoints ce lat lng j' ! i'))
           \<and> callThrows ce (3 * j + i) (legMidPoints ce lat lng j ! i) (Error msg)
           \<longrightarrow> getSafeRoutes ce (Location (Some lat) (Some lng)) = (500, ServerError msg)"
    by (rule getSafeRoutes_first_throw [OF assms])
  show "\<not> (\<forall>j<8. \<forall>i<3. callAnswers ce (3 * j + i) (legMidPoints ce lat lng j ! i)) \<longrightarrow>
          fst (getSafeRoutes ce (Location (Some lat) (Some lng))) = 500"
    by (intro impI) (rule getSafeRoutes_some_throw [OF assms])
qed

theorem getSafeRoutes_routes_or_500_witness:
  "fst (getSafeRoutes (example_cenv predict_down nearby_none) (Location (Some 28.6) (Some 77.2)))
     = 200
   \<and> routeScores (getSafeRoutes (example_cenv predict_down nearby_none)
         (Location (Some 28.6) (Some 77.2)))
     = replicate 8 (JNum 0.5)
   \<and> getSafeRoutes (example_cenv predict_down (nearby_down_from 5))
         (Location (Some 28.6) (Some 77.2))
     = (500, ServerError ''store down'')"
proof -
  let ?ce = "example_cenv predict_down nearby_none"
  let ?cf = "example_cenv predict_down (nearby_down_from 5)"
  have nz: "(28.6 :: real) \<noteq> 0" "(77.2 :: real) \<noteq> 0" by simp_all
  have ans: "\<forall>j<8. \<forall>i<3. callAnswers ?ce (3 * j + i) (legMidPoints ?ce 28.6 77.2 j ! i)"
    by (simp add: callAnswers_def example_cenv_def nearby_none_def)
  have rej: "callRejected ?ce k mp" for k mp
    by (simp add: callRejected_def example_cenv_def predict_down_def)
  from getSafeRoutes_routes_or_500 [OF nz, of ?ce, THEN conjunct1, THEN mp, OF ans]
  obtain routes where
    all: "getSafeRoutes ?ce (Location (Some 28.6) (Some 77.2)) = (200, RoutesBody routes)
          \<and> length routes = 8
          \<and> map endp routes = generateRoutePoints (random ?ce) 28.6 77.2 8 1
          \<and> list_all (\<lambda>r. start r = \<lparr> pt_lat = 28.6, pt_lng = 77.2 \<rparr>) routes
          \<and> (\<forall>j<8.
               (\<forall>i<3. callRejected ?ce (3 * j + i) (legMidPoints ?ce 28.6 77.2 j ! i))
                 \<longrightarrow> safetyScore (routes ! j) = JNum 0.5)"
    by (rule exE)
  note resp = all [THEN conjunct1]
  note len = all [THEN conjunct2, THEN conjunct1]
  note legs = all [THEN conjunct2, THEN conjunct2, THEN conjunct2, THEN conjunct2, rule_format]
  have "map safetyScore routes = replicate 8 (JNum 0.5)"
  proof (rule nth_equalityI)
    show "length (map safetyScore routes) = length (replicate 8 (JNum 0.5))"
      using len by simp
    fix j assume "j < length (map safetyScore routes)"
    with len have j: "j < 8" by simp
    from legs [OF j] rej have "safetyScore (routes ! j) = JNum 0.5" by simp
    with j len show "map safetyScore routes ! j = replicate 8 (JNum 0.5) ! j" by simp
  qed
  with resp have a: "fst (getSafeRoutes ?ce (Location (Some 28.6) (Some 77.2))) = 200"
    and b: "routeScores (getSafeRoutes ?ce (Location (Some 28.6) (Some 77.2)))
              = replicate 8 (JNum 0.5)"
    by (simp_all add: routeScores_def)
  have before: "\<forall>j'<8. \<forall>i'<3. callsBefore j' i' 1 2 \<longrightarrow>
      callAnswers ?cf (3 * j' + i') (legMidPoints ?cf 28.6 77.2 j' ! i')"
    by (auto simp: callsBefore_def callAnswers_def example_cenv_def nearby_down_from_def)
  have throws: "callThrows ?cf (3 * 1 + 2) (legMidPoints ?cf 28.6 77.2 1 ! 2) (Error ''store down'')"
    by (simp add: callThrows_def example_cenv_def nearby_down_from_def)
  have lt: "(1 :: nat) < 8" "(2 :: nat) < 3" by simp_all
  have c: "getSafeRoutes ?cf (Location (Some 28.6) (Some 77.2)) = (500, ServerError ''store down'')"
    by (rule getSafeRoutes_routes_or_500 [OF nz, of ?cf, THEN conjunct2, THEN conjunct1,
          rule_format,
          of 1 2 "''store down''", OF lt conjI [OF before throws]])
  from a b c show ?thesis by (intro conjI)
qed

text \<open>Against C1 as stated: when \<open>findNearby\<close> throws, the request is answered with
  status 500 and carries no route record; only a rejected prediction is caught inside
  the loop.\<close>

theorem store_failure_answers_500:
  "getSafeRoutes (example_cenv predict_down nearby_down) (Location (Some 28.6) (Some 77.2))
     = (500, ServerError ''store down'')"
  by (rule getSafeRoutes_store_down) (simp_all add: example_cenv_def nearby_down_def)

text \<open>
  Claim C2, what the code does. \<open>predictSafety\<close> resolves to the object
  \<open>{ score, confidence }\<close>, and the loop adds that object, not its \<open>score\<close>, to
  \<open>totalScore\<close>: the sum becomes a string and the quotient \<open>NaN\<close>. With every prediction
  resolving to the score 0.8 and no report nearby, each of the 8 routes carries the
  score \<open>NaN\<close>, not the mean 0.8.
\<close>

theorem resolved_predictions_make_score_NaN:
  "fst (getSafeRoutes (example_cenv predict_safe nearby_none) (Location (Some 28.6) (Some 77.2)))
     = 200
   \<and> routeScores (getSafeRoutes (example_cenv predict_safe nearby_none)
         (Location (Some 28.6) (Some 77.2)))
     = [JNaN, JNaN, JNaN, JNaN, JNaN, JNaN, JNaN, JNaN]"
proof -
  let ?ce = "example_cenv predict_safe nearby_none"
  have nz: "(28.6 :: real) \<noteq> 0" "(77.2 :: real) \<noteq> 0" by simp_all
  from getSafeRoutes_legs [OF nz example_store_answers]
  obtain routes where
    all: "getSafeRoutes ?ce (Location (Some 28.6) (Some 77.2)) = (200, RoutesBody routes)
           \<and> map endp routes = generateRoutePoints (random ?ce) 28.6 77.2 8 1
           \<and> list_all (\<lambda>r. start r = \<lparr> pt_lat = 28.6, pt_lng = 77.2 \<rparr>) routes
           \<and> (predictions_fail ?ce \<longrightarrow> list_all (\<lambda>r. safetyScore r = JNum 0.5) routes)
           \<and> (predictions_resolve ?ce \<longrightarrow> list_all (\<lambda>r. safetyScore r = JNaN) routes)"
    by (rule exE)
  note resp = all [THEN conjunct1]
  have "length (map endp routes) = 8"
    by (simp only: all [THEN conjunct2, THEN conjunct1] length_generateRoutePoints)
  then have len: "length routes = 8" by simp
  note nan = all [THEN conjunct2, THEN conjunct2, THEN conjunct2, THEN conjunct2, THEN mp,
                  OF example_predictions_resolve]
  from map_const_replicate [OF nan] len
  have "map safetyScore routes = replicate 8 JNaN" by simp
  then have "map safetyScore routes = [JNaN, JNaN, JNaN, JNaN, JNaN, JNaN, JNaN, JNaN]"
    by (simp add: numeral_eq_Suc)
  with resp show ?thesis by (simp add: routeScores_def)
qed

text \<open>The other half of C2 holds: the incident count of a leg is the sum, over its
  midpoints, of the unsafe, incident and suspicious reports found within 0.2 km.\<close>

lemma scoreMidPoints_incidents:
  assumes "store_answers ce"
  shows "\<exists>total. scoreMidPoints ce k mps t i
           = Inr (total, i + (\<Sum>j<length mps. unsafeNearby ce (k + j) (mps ! j)))"
proof (induction mps arbitrary: k t i)
  case Nil
  show ?case by simp
next
  case (Cons mp mps)
  from assms obtain found where f: "findNearbyCall ce k (pt_lat mp) (pt_lng mp) 0.2 = Inr found"
    unfolding store_answers_def by meson
  have here: "length (filter (\<lambda>r. r_type r \<in> set unsafe_types)
                (case found of None \<Rightarrow> [] | Some rs \<Rightarrow> rs)) = unsafeNearby ce k mp"
    using f by (simp add: unsafeNearby_def split: option.splits)
  have shift: "(\<Sum>j<Suc (length mps). unsafeNearby ce (k + j) ((mp # mps) ! j))
      = unsafeNearby ce k mp + (\<Sum>j<length mps. unsafeNearby ce (k + 1 + j) (mps ! j))"
    by (simp only: sum.lessThan_Suc_shift) simp
  from Cons.IH [of "k + 1" _ "i + unsafeNearby ce k mp"] f here shift
  show ?case by (simp add: Let_def add.assoc)
qed

section \<open>Report submission and training schedule\<close>

text \<open>
  Claim C7, as amended. The claim has \<open>submitReport\<close> call \<open>scheduleTraining()\<close> only
  for severity at least 4 or type unsafe or incident. The function has no such test: it
  calls \<open>scheduleTraining()\<close> exactly once in every submission it answers with 201,
  whatever the severity and type, and not at all in a submission it answers with 400
  or 500.
\<close>

theorem submitReport_schedules_once_on_success:
  "count_list (snd (submitReport se b)) ScheduleTraining
     = (if fst (fst (submitReport se b)) = 201 then 1 else 0)"
  by (auto simp: submitReport_def missingFields_def Let_def
           split: option.splits sum.splits error.splits)

theorem submitReport_schedules_once_on_success_witness:
  "fst (fst (submitReport example_senv quiet_street)) = 201
   \<and> count_list (snd (submitReport example_senv quiet_street)) ScheduleTraining = 1"
proof -
  have "fst (fst (submitReport example_senv quiet_street)) = 201"
    by (simp add: submitReport_def example_senv_def quiet_street_def save_ok_def)
  then show ?thesis
    using submitReport_schedules_once_on_success [of example_senv quiet_street] by simp
qed

text \<open>Against C7 as stated: a report of type safe with severity 1 is accepted and
  training is scheduled for it.\<close>

theorem safe_severity_one_schedules_training:
  "b_severity quiet_street = Some 1 \<and> b_type quiet_street = Some ''safe''
   \<and> fst (submitReport example_senv quiet_street)
       = (201, SubmitBody \<lparr> r_lat = 28.6, r_lng = 77.2, r_type = ''safe'', r_severity = 1,
                             r_timestamp = 5000, r_description = ''quiet street'' \<rparr>)
   \<and> count_list (snd (submitReport example_senv quiet_street)) ScheduleTraining = 1"
  by (simp add: submitReport_def example_senv_def quiet_street_def save_ok_def)

section \<open>Training with too few reports\<close>

text \<open>That \<open>trainModel\<close> does train when it has ten reports and a model.\<close>

lemma trainModel_ten_reports_trains:
  "lastTrainedAt
     (trainModel (example_tenv\<lparr> findRecent := (\<lambda>n. Inr (replicate 10 example_report)) \<rparr>)
        (new_service\<lparr> model := Some example_model \<rparr>)) = Some 9500"
  by (simp add: trainModel_def example_tenv_def new_service_def fit_ok_def Let_def)

text \<open>
  Claim C8. When the query for the reports returns fewer than 10 of them, \<open>trainModel\<close>
  returns the service as it was: \<open>lastTrainedAt\<close>, \<open>modelLoss\<close>, the model and every
  other field are unchanged.
\<close>

theorem trainModel_below_ten_is_noop:
  assumes "findRecent te 10000 = Inr reports" and "length reports < 10"
  shows "trainModel te s = s"
  using assms by (simp add: trainModel_def)

theorem trainModel_below_ten_is_noop_witness:
  "trainModel example_tenv (new_service\<lparr> model := Some example_model \<rparr>)
     = new_service\<lparr> model := Some example_model \<rparr>"
proof -
  have q: "findRecent example_tenv 10000 = Inr [example_report, example_report, example_report]"
    by (simp add: example_tenv_def few_reports_def)
  show ?thesis
    using trainModel_below_ten_is_noop [OF q] by simp
qed

section \<open>Coordinates on the equator or the prime meridian\<close>

text \<open>
  Claim C10. A request whose parsed location has \<open>lat\<close> equal to 0 or \<open>lng\<close> equal to 0
  is answered by \<open>getSafeRoutes\<close> and by \<open>getReports\<close> with status 400 and the error
  \<open>Invalid location data\<close>, which is also the answer to a request with both
  coordinates missing.
\<close>

theorem zero_coordinate_rejected:
  assumes "olat = Some 0 \<or> olng = Some 0"
  shows "getSafeRoutes ce (Location olat olng) = (400, ErrorMsg ''Invalid location data'')
       \<and> getReports ce (Location olat olng) oradius = (400, ErrorMsg ''Invalid location data'')
       \<and> getSafeRoutes ce (Location olat olng) = getSafeRoutes ce (Location None None)
       \<and> getReports ce (Location olat olng) oradius = getReports ce (Location None None) oradius"
  using assms
  by (auto simp: getSafeRoutes_def getReports_def invalidLocation_def Let_def split: option.splits)

theorem zero_coordinate_rejected_witness:
  "getSafeRoutes (example_cenv predict_safe nearby_none) (Location (Some 0) (Some 77.2))
     = (400, ErrorMsg ''Invalid location data'')
   \<and> getReports (example_cenv predict_safe nearby_none) (Location (Some 0) (Some 77.2)) (Some 2)
     = (400, ErrorMsg ''Invalid location data'')"
  using zero_coordinate_rejected
    [of "Some 0" "Some 77.2" "example_cenv predict_safe nearby_none" "Some 2"]
  by simp

end
